theory Spec2Isabelle
  imports Main "HOL-Library.Word" "HOL-Library.Sublist"
begin

section \<open>Go values used by the embedded code\<close>

text \<open>
  Strings are byte lists (\<^typ>\<open>string\<close>). The verb \<^verbatim>\<open>%d\<close> of \<^verbatim>\<open>fmt\<close> renders a Go
  integer in decimal, with a leading minus sign for a negative value.
\<close>

fun digits :: "nat \<Rightarrow> string" where
  "digits n =
     (if n < 10 then [''0123456789'' ! n]
      else digits (n div 10) @ [''0123456789'' ! (n mod 10)])"

declare digits.simps [simp del]

definition itoa :: "int \<Rightarrow> string" where
  "itoa i = (if i < 0 then CHR ''-'' # digits (nat (- i)) else digits (nat i))"

text \<open>\<^verbatim>\<open>strings.HasPrefix\<close> and \<^verbatim>\<open>strings.TrimPrefix\<close>.\<close>

definition HasPrefix :: "string \<Rightarrow> string \<Rightarrow> bool" where
  "HasPrefix s pre = (take (length pre) s = pre)"

definition TrimPrefix :: "string \<Rightarrow> string \<Rightarrow> string" where
  "TrimPrefix s pre = (if HasPrefix s pre then drop (length pre) s else s)"

section \<open>The endpoint fallback loop (\<^verbatim>\<open>getData\<close>)\<close>

subsection \<open>Data\<close>

text \<open>
  \<^verbatim>\<open>registry.APIVersion\<close> is a Go integer type of the registry library; its constants
  \<^verbatim>\<open>APIVersion1\<close> and \<^verbatim>\<open>APIVersion2\<close> are 1 and 2 there. An endpoint carries its URL and
  the protocol version it speaks.
\<close>

type_synonym APIVersion = int

definition APIVersion1 :: APIVersion where
  "APIVersion1 = 1"

definition APIVersion2 :: APIVersion where
  "APIVersion2 = 2"

record APIEndpoint =
  URL :: string
  Version :: APIVersion

text \<open>
  A Go \<^verbatim>\<open>error\<close> is an interface value; \<^verbatim>\<open>nil\<close> is \<^const>\<open>None\<close> of \<open>error option\<close>.
  The loop distinguishes three dynamic types: \<^verbatim>\<open>registry.ErrNoSupport\<close>, the wrapper
  \<^verbatim>\<open>fallbackError\<close> (fields \<^verbatim>\<open>err\<close> and \<^verbatim>\<open>confirmedV2\<close>), and every other error, kept
  with its message (what \<^verbatim>\<open>fmt.Errorf\<close> builds).
\<close>

datatype error =
    ErrNoSupport string
  | fallbackError "error option" bool
  | errorString string

fun isErrNoSupport :: "error option \<Rightarrow> bool" where
  "isErrNoSupport (Some (ErrNoSupport m)) = True"
| "isErrNoSupport _ = False"

typedecl Config

record imageInspect =
  V1ID :: string
  RepoTags :: "string list"
  RepoDigests :: "string list"
  Parent :: string
  Comment :: string
  Created :: string
  Container :: string
  ContainerConfig :: "Config option"
  DockerVersion :: string
  Author :: string
  Config :: "Config option"
  Architecture :: string
  Os :: string
  Size :: "64 word"
  Registry :: string

record AuthConfig =
  Username :: string
  Password :: string
  Email :: string

text \<open>
  \<^verbatim>\<open>reference.Named\<close> and \<^verbatim>\<open>registry.RepositoryInfo\<close> belong to libraries; the loop only
  reads \<^verbatim>\<open>ref.String()\<close> and \<^verbatim>\<open>repoInfo.Name()\<close>, so both are kept as those strings.
\<close>

type_synonym Named = string
type_synonym RepositoryInfo = string

datatype manifestFetcher =
  v2ManifestFetcher APIEndpoint AuthConfig RepositoryInfo

text \<open>
  What the loop does that an observer can see: the two debug lines it logs, the calls of
  \<^verbatim>\<open>newManifestFetcher\<close> and the calls of \<^verbatim>\<open>Fetch\<close>.
\<close>

datatype event =
    Debugf_Skipping APIEndpoint
  | Debugf_Trying APIEndpoint
  | Call_newManifestFetcher APIEndpoint
  | Call_Fetch APIEndpoint
  | Debugf_NotContinuing error

text \<open>The local variables of the loop.\<close>

record loop_vars =
  lastErr :: "error option"
  discardNoSupportErrors :: bool
  confirmedV2 :: bool

definition init_vars :: loop_vars where
  "init_vars = \<lparr>lastErr = None, discardNoSupportErrors = False, confirmedV2 = False\<rparr>"

text \<open>
  One iteration either goes on to the next endpoint with updated variables
  (\<^verbatim>\<open>continue\<close>), or leaves \<^verbatim>\<open>getData\<close> with a result (\<^verbatim>\<open>return\<close>).
\<close>

datatype flow =
    Continue loop_vars
  | Return "error + imageInspect"

subsection \<open>Operations\<close>

definition validateRepoName :: "string \<Rightarrow> string \<Rightarrow> error option" where
  "validateRepoName NoBaseImageSpecifier name =
     (if name = []
        then Some (errorString (''Repository name can'' @ [CHR 0x27] @ ''t be empty''))
      else if name = NoBaseImageSpecifier
        then Some (errorString ([CHR 0x27] @ NoBaseImageSpecifier @ [CHR 0x27] @
                     '' is a reserved name''))
      else None)"

definition newManifestFetcher ::
  "APIEndpoint \<Rightarrow> RepositoryInfo \<Rightarrow> AuthConfig \<Rightarrow> error + manifestFetcher" where
  "newManifestFetcher endpoint repoInfo authConfig =
     (if Version endpoint = APIVersion2
        then Inr (v2ManifestFetcher endpoint authConfig repoInfo)
      else Inl (errorString (''unknown version '' @ itoa (Version endpoint) @
                  '' for registry '' @ URL endpoint)))"

text \<open>
  The network is outside the program. \<^verbatim>\<open>Fetch\<close> is a parameter: in a world \<open>w\<close> it
  answers with an error or a result and leaves a new world. \<open>Done\<close> tells whether the
  channel \<^verbatim>\<open>ctx.Done()\<close> is closed in a world; the \<^verbatim>\<open>select\<close> with a \<^verbatim>\<open>default\<close> branch
  reads it once, after the failed fetch.
\<close>

type_synonym 'w fetch = "'w \<Rightarrow> manifestFetcher \<Rightarrow> Named \<Rightarrow> (error + imageInspect) \<times> 'w"

text \<open>The classification of a failed fetch (the body of \<^verbatim>\<open>if fallback\<close> and what precedes it).\<close>

definition on_fetch_error :: "bool \<Rightarrow> error \<Rightarrow> loop_vars \<Rightarrow> flow \<times> event list" where
  "on_fetch_error done err0 s =
     (if done then (Return (Inl err0), [Debugf_NotContinuing err0])
      else
        (case err0 of
           fallbackError inner c \<Rightarrow>
             (let s1 = s\<lparr>confirmedV2 := confirmedV2 s \<or> c\<rparr> in
              if \<not> isErrNoSupport inner
                then (Continue (s1\<lparr>discardNoSupportErrors := True, lastErr := inner\<rparr>), [])
              else if \<not> discardNoSupportErrors s1
                then (Continue (s1\<lparr>lastErr := inner\<rparr>), [])
              else (Continue s1, []))
         | _ \<Rightarrow> (Return (Inl err0), [Debugf_NotContinuing err0])))"

text \<open>The body of the \<^verbatim>\<open>for\<close> loop, for one endpoint.\<close>

definition loop_body ::
  "('w \<Rightarrow> bool) \<Rightarrow> 'w fetch \<Rightarrow> RepositoryInfo \<Rightarrow> AuthConfig \<Rightarrow> Named \<Rightarrow>
     APIEndpoint \<Rightarrow> loop_vars \<Rightarrow> 'w \<Rightarrow> flow \<times> 'w \<times> event list" where
  "loop_body Done Fetch repoInfo authConfig ref endpoint s w =
     (if confirmedV2 s \<and> Version endpoint = APIVersion1
        then (Continue s, w, [Debugf_Skipping endpoint])
      else
        (case newManifestFetcher endpoint repoInfo authConfig of
           Inl err \<Rightarrow>
             (Continue (s\<lparr>lastErr := Some err\<rparr>), w,
              [Debugf_Trying endpoint, Call_newManifestFetcher endpoint])
         | Inr fetcher \<Rightarrow>
             (case Fetch w fetcher ref of
                (Inr ii, w') \<Rightarrow>
                  (Return (Inr ii), w',
                   [Debugf_Trying endpoint, Call_newManifestFetcher endpoint,
                    Call_Fetch endpoint])
              | (Inl err, w') \<Rightarrow>
                  (case on_fetch_error (Done w') err s of
                     (f, evs) \<Rightarrow>
                       (f, w',
                        [Debugf_Trying endpoint, Call_newManifestFetcher endpoint,
                         Call_Fetch endpoint] @ evs)))))"

text \<open>
  The \<^verbatim>\<open>for\<close> loop over the endpoints, in order. \<^const>\<open>Continue\<close> as its result means the
  list was exhausted; the variables are those after the last iteration.
\<close>

fun getData_loop ::
  "('w \<Rightarrow> bool) \<Rightarrow> 'w fetch \<Rightarrow> RepositoryInfo \<Rightarrow> AuthConfig \<Rightarrow> Named \<Rightarrow>
     loop_vars \<Rightarrow> 'w \<Rightarrow> APIEndpoint list \<Rightarrow> flow \<times> 'w \<times> event list" where
  "getData_loop Done Fetch repoInfo authConfig ref s w [] = (Continue s, w, [])"
| "getData_loop Done Fetch repoInfo authConfig ref s w (endpoint # endpoints) =
     (case loop_body Done Fetch repoInfo authConfig ref endpoint s w of
        (Return r, w', evs) \<Rightarrow> (Return r, w', evs)
      | (Continue s', w', evs) \<Rightarrow>
          (case getData_loop Done Fetch repoInfo authConfig ref s' w' endpoints of
             (f, w'', evs') \<Rightarrow> (f, w'', evs @ evs')))"

text \<open>What follows the loop: the list is exhausted and no fetch succeeded.\<close>

definition after_loop :: "Named \<Rightarrow> loop_vars \<Rightarrow> error + imageInspect" where
  "after_loop ref s =
     (case lastErr s of
        None \<Rightarrow> Inl (errorString (''no endpoints found for '' @ ref))
      | Some e \<Rightarrow> Inl e)"

text \<open>
  \<^verbatim>\<open>context.Background()\<close> is never cancelled: its \<^verbatim>\<open>Done\<close> channel never becomes ready.
\<close>

definition Background :: "'w \<Rightarrow> bool" where
  "Background w = False"

text \<open>
  \<^verbatim>\<open>getData\<close>. The results of the library calls \<^verbatim>\<open>registry.ParseRepositoryInfo\<close> and
  \<^verbatim>\<open>LookupPullEndpoints\<close>, and the constant \<^verbatim>\<open>api.NoBaseImageSpecifier\<close>, are parameters.
\<close>

definition getData ::
  "(Named \<Rightarrow> error + RepositoryInfo) \<Rightarrow> string \<Rightarrow>
   (RepositoryInfo \<Rightarrow> error + APIEndpoint list) \<Rightarrow> 'w fetch \<Rightarrow>
   Named \<Rightarrow> AuthConfig \<Rightarrow> 'w \<Rightarrow> (error + imageInspect) \<times> 'w \<times> event list" where
  "getData ParseRepositoryInfo NoBaseImageSpecifier LookupPullEndpoints Fetch ref authConfig w =
     (case ParseRepositoryInfo ref of
        Inl err \<Rightarrow> (Inl err, w, [])
      | Inr repoInfo \<Rightarrow>
          (case validateRepoName NoBaseImageSpecifier repoInfo of
             Some err \<Rightarrow> (Inl err, w, [])
           | None \<Rightarrow>
               (case LookupPullEndpoints repoInfo of
                  Inl err \<Rightarrow> (Inl err, w, [])
                | Inr endpoints \<Rightarrow>
                    (case getData_loop Background Fetch repoInfo authConfig ref
                            init_vars w endpoints of
                       (Return r, w', evs) \<Rightarrow> (r, w', evs)
                     | (Continue s, w', evs) \<Rightarrow> (after_loop ref s, w', evs)))))"

text \<open>
  A run over endpoints that cannot replace a recorded error, followed as the loop follows
  it, with the flag \<open>confirmedV2\<close> and the world as they are at each endpoint: a version-1
  endpoint met with the flag set is skipped; any other endpoint has version 2 and its
  fetch, in the world reached, fails with a \<^verbatim>\<open>fallbackError\<close> that wraps an
  \<^verbatim>\<open>ErrNoSupport\<close>, the context not being done; the flag it carries is merged in.
\<close>

fun only_no_support ::
  "('w \<Rightarrow> bool) \<Rightarrow> 'w fetch \<Rightarrow> RepositoryInfo \<Rightarrow> AuthConfig \<Rightarrow> Named \<Rightarrow>
     bool \<Rightarrow> 'w \<Rightarrow> APIEndpoint list \<Rightarrow> bool" where
  "only_no_support Done Fetch ri ac rf confirmed w [] = True"
| "only_no_support Done Fetch ri ac rf confirmed w (ep # eps) =
     (if confirmed \<and> Version ep = APIVersion1
        then only_no_support Done Fetch ri ac rf confirmed w eps
      else Version ep = APIVersion2 \<and>
        (case Fetch w (v2ManifestFetcher ep ac ri) rf of
           (Inl (fallbackError inner c), w') \<Rightarrow>
             isErrNoSupport inner \<and> \<not> Done w' \<and>
             only_no_support Done Fetch ri ac rf (confirmed \<or> c) w' eps
         | _ \<Rightarrow> False))"

section \<open>The directory transport (package \<^verbatim>\<open>directory\<close>)\<close>

subsection \<open>\<^verbatim>\<open>filepath.Clean\<close> and \<^verbatim>\<open>filepath.Join\<close>\<close>

text \<open>
  The two functions of Go's \<^verbatim>\<open>path/filepath\<close> that the transport calls, for a Unix
  system (separator \<^verbatim>\<open>/\<close>, no volume names). \<^verbatim>\<open>Clean\<close> reads the path from left to right
  and writes into a buffer; \<open>dotdot\<close> is the buffer index that a \<^verbatim>\<open>..\<close> element may not
  back over.

  On a \<^verbatim>\<open>..\<close> element the write index steps back over the last element written, to the
  separator before it.
\<close>

fun backtrack :: "nat \<Rightarrow> string \<Rightarrow> nat \<Rightarrow> nat" where
  "backtrack dotdot buf 0 = 0"
| "backtrack dotdot buf (Suc w) =
     (if Suc w > dotdot \<and> buf ! Suc w \<noteq> CHR ''/'' then backtrack dotdot buf w else Suc w)"

definition sep_if_needed :: "bool \<Rightarrow> string \<Rightarrow> string" where
  "sep_if_needed rooted buf =
     (if (rooted \<and> length buf \<noteq> 1) \<or> (\<not> rooted \<and> length buf \<noteq> 0)
        then buf @ ''/'' else buf)"

function clean_loop :: "bool \<Rightarrow> string \<times> nat \<Rightarrow> string \<Rightarrow> string \<times> nat" where
  "clean_loop rooted (buf, dotdot) [] = (buf, dotdot)"
| "clean_loop rooted (buf, dotdot) (c # rest) =
     (if c = CHR ''/'' then clean_loop rooted (buf, dotdot) rest
      else if c = CHR ''.'' \<and> (rest = [] \<or> hd rest = CHR ''/'')
        then clean_loop rooted (buf, dotdot) rest
      else if c = CHR ''.'' \<and> rest \<noteq> [] \<and> hd rest = CHR ''.'' \<and>
              (tl rest = [] \<or> hd (tl rest) = CHR ''/'')
        then
          (if length buf > dotdot
             then clean_loop rooted
                    (take (backtrack dotdot buf (length buf - 1)) buf, dotdot) (tl rest)
           else if \<not> rooted
             then clean_loop rooted
                    ((if length buf > 0 then buf @ ''/'' else buf) @ ''..'',
                     length ((if length buf > 0 then buf @ ''/'' else buf) @ ''..''))
                    (tl rest)
           else clean_loop rooted (buf, dotdot) (tl rest))
      else clean_loop rooted
             (sep_if_needed rooted buf @ takeWhile (\<lambda>x. x \<noteq> CHR ''/'') (c # rest), dotdot)
             (dropWhile (\<lambda>x. x \<noteq> CHR ''/'') (c # rest)))"
  by pat_completeness auto
termination
proof (relation "measure (\<lambda>(rooted, st, p). length p)")
  show "wf (measure (\<lambda>(rooted, st, p). length p))" by simp
next
  fix rooted :: bool and buf :: string and dotdot :: nat and c :: char and rest :: string
  assume "c \<noteq> CHR ''/''"
  have "length (dropWhile (\<lambda>x. x \<noteq> CHR ''/'') rest) \<le> length rest"
    by (rule length_dropWhile_le)
  then show "((rooted,
        (sep_if_needed rooted buf @ takeWhile (\<lambda>x. x \<noteq> CHR ''/'') (c # rest), dotdot),
        dropWhile (\<lambda>x. x \<noteq> CHR ''/'') (c # rest)), rooted, (buf, dotdot), c # rest)
      \<in> measure (\<lambda>(rooted, st, p). length p)"
    using \<open>c \<noteq> CHR ''/''\<close> by simp
qed auto

definition Clean :: "string \<Rightarrow> string" where
  "Clean p =
     (if p = [] then ''.''
      else
        (let rooted = (hd p = CHR ''/'');
             buf = fst (if rooted then clean_loop rooted (''/'', 1) (tl p)
                        else clean_loop rooted ([], 0) p)
         in if buf = [] then ''.'' else buf))"

text \<open>
  \<^verbatim>\<open>strings.Join(elems, "/")\<close>, and \<^verbatim>\<open>filepath.Join\<close>: the elements from the first non-empty
  one on, joined by the separator, and the result cleaned; the empty string when every
  element is empty.
\<close>

fun strings_Join :: "string list \<Rightarrow> string" where
  "strings_Join [] = []"
| "strings_Join [e] = e"
| "strings_Join (e # es) = e @ ''/'' @ strings_Join es"

fun Join :: "string list \<Rightarrow> string" where
  "Join [] = []"
| "Join (e # es) = (if e \<noteq> [] then Clean (strings_Join (e # es)) else Join es)"

text \<open>
  A path element that names a file: not empty, without a separator, and neither \<^verbatim>\<open>.\<close>
  nor \<^verbatim>\<open>..\<close>. The file of that name under a directory \<open>p\<close> is written with the cleaned
  form of \<open>p\<close>.
\<close>

definition plain_element :: "string \<Rightarrow> bool" where
  "plain_element name =
     (name \<noteq> [] \<and> CHR ''/'' \<notin> set name \<and> name \<noteq> ''.'' \<and> name \<noteq> ''..'')"

definition under_dir :: "string \<Rightarrow> string \<Rightarrow> string" where
  "under_dir p name =
     (if Clean p = ''.'' then name
      else if Clean p = ''/'' then CHR ''/'' # name
      else Clean p @ CHR ''/'' # name)"

subsection \<open>The transport and its references\<close>

definition dirTransport_Name :: string where
  "dirTransport_Name = ''dir''"

definition ValidatePolicyConfigurationScope :: "string \<Rightarrow> error option" where
  "ValidatePolicyConfigurationScope scope =
     (if \<not> HasPrefix scope ''/''
        then Some (errorString (''Invalid scope '' @ scope @ '': Must be an absolute path''))
      else if scope = ''/''
        then Some (errorString (''Invalid scope '' @ [CHR 0x22] @ ''/'' @ [CHR 0x22] @
                     '': Use the generic default scope '' @ [CHR 0x22, CHR 0x22]))
      else
        (let cleaned = Clean scope in
         if cleaned \<noteq> scope
           then Some (errorString (''Invalid scope '' @ scope @
                        '': Uses non-canonical format, perhaps try '' @ cleaned))
         else None))"

record dirReference =
  path :: string
  resolvedPath :: string




definition PolicyConfigurationIdentity :: "dirReference \<Rightarrow> string" where
  "PolicyConfigurationIdentity ref = resolvedPath ref"

definition manifestPath :: "dirReference \<Rightarrow> string" where
  "manifestPath ref = Join [path ref, ''manifest.json'']"

definition layerPath :: "dirReference \<Rightarrow> string \<Rightarrow> string" where
  "layerPath ref digest = Join [path ref, TrimPrefix digest ''sha256:'' @ ''.tar'']"

text \<open>The index is a Go \<^verbatim>\<open>int\<close> (64 bits, signed): \<^verbatim>\<open>index+1\<close> wraps around.\<close>

definition signaturePath :: "dirReference \<Rightarrow> 64 word \<Rightarrow> string" where
  "signaturePath ref index = Join [path ref, ''signature-'' @ itoa (sint (index + 1))]"

section \<open>The registry-backed transport (package \<^verbatim>\<open>docker\<close>)\<close>

text \<open>
  The implementation of this transport is not part of the code embedded here; its test
  file is. The definitions of this section follow the specification, and the test where
  the specification is silent.
\<close>

text \<open>
  Modelled from the spec: the error kinds of its taxonomy that the registry-backed
  parse function and constructor produce.
\<close>

datatype refError = InvalidInput | UnsupportedCombination

text \<open>
  Modelled from the spec: the identity payload of a registry-backed reference, a
  normalized repository with an optional tag and an optional digest. A structured name
  of the naming library can carry both at once (the test builds one,
  \<^verbatim>\<open>refWithTagAndDigest\<close>).
\<close>

record NamedRef =
  Name :: string
  Tag :: "string option"
  Digest :: "string option"

text \<open>
  Modelled from the spec: the naming library's parse function. Its grammar
  (\<^verbatim>\<open>[host[:port]/]path[:tag|@digest]\<close>, lowercase names, default host and namespace) is
  a parameter that splits a string into repository, tag and digest, or rejects it; on a
  string that supplies both a tag and a digest, the digest wins and the tag is dropped.
\<close>

definition ParseNamed :: "(string \<Rightarrow> NamedRef option) \<Rightarrow> string \<Rightarrow> refError + NamedRef" where
  "ParseNamed grammar s =
     (case grammar s of
        None \<Rightarrow> Inl InvalidInput
      | Some n \<Rightarrow> (if Digest n \<noteq> None then Inr (n\<lparr>Tag := None\<rparr>) else Inr n))"

text \<open>
  Modelled from the spec: a name with neither tag nor digest has no pin; a reference
  parsed without one receives the default tag (\<^verbatim>\<open>latest\<close> in the test).
\<close>

definition IsNameOnly :: "NamedRef \<Rightarrow> bool" where
  "IsNameOnly n = (Tag n = None \<and> Digest n = None)"

text \<open>
  Modelled from the spec: the default tag is filled in only where the name has no pin.
\<close>

definition WithDefaultTag :: "NamedRef \<Rightarrow> NamedRef" where
  "WithDefaultTag n = (if IsNameOnly n then n\<lparr>Tag := Some ''latest''\<rparr> else n)"

text \<open>
  Modelled from the spec: a registry-backed reference holds the structured name (the
  test reads it as the field \<^verbatim>\<open>ref\<close>).
\<close>

record dockerReference =
  ref :: NamedRef

text \<open>
  Modelled from the spec: the backend-specific constructor taking an already-structured
  name. Construction from a name with neither tag nor digest fails. The test
  \<^verbatim>\<open>TestNewReference\<close> requires an error as well for a name that carries both a tag and a
  digest.
\<close>

definition docker_NewReference :: "NamedRef \<Rightarrow> refError + dockerReference" where
  "docker_NewReference n =
     (if IsNameOnly n then Inl UnsupportedCombination
      else if Tag n \<noteq> None \<and> Digest n \<noteq> None then Inl UnsupportedCombination
      else Inr \<lparr>ref = n\<rparr>)"

text \<open>
  Modelled from the spec: the transport's parse function. The test rejects an input
  without the \<^verbatim>\<open>//\<close> prefix; the rest is parsed by the naming library, given the default
  tag where it has no pin, and passed to the constructor.
\<close>

definition docker_ParseReference ::
  "(string \<Rightarrow> NamedRef option) \<Rightarrow> string \<Rightarrow> refError + dockerReference" where
  "docker_ParseReference grammar refString =
     (if \<not> HasPrefix refString ''//'' then Inl InvalidInput
      else
        (case ParseNamed grammar (TrimPrefix refString ''//'') of
           Inl err \<Rightarrow> Inl err
         | Inr n \<Rightarrow> docker_NewReference (WithDefaultTag n)))"

section \<open>Example runs\<close>

text \<open>
  Three endpoints of one registry, and a network that counts the fetches made so far:
  the first endpoint answers that it does not support the protocol, the second speaks
  the protocol and fails the request, and any other fails with an error that allows no
  fallback.
\<close>

definition endpoint_a :: APIEndpoint where
  "endpoint_a = \<lparr>URL = ''https://a.example'', Version = APIVersion2\<rparr>"

definition endpoint_b :: APIEndpoint where
  "endpoint_b = \<lparr>URL = ''https://b.example'', Version = APIVersion2\<rparr>"

definition endpoint_c :: APIEndpoint where
  "endpoint_c = \<lparr>URL = ''https://c.example'', Version = APIVersion1\<rparr>"

definition endpoint_d :: APIEndpoint where
  "endpoint_d = \<lparr>URL = ''https://d.example'', Version = APIVersion2\<rparr>"

definition no_auth :: AuthConfig where
  "no_auth = \<lparr>Username = [], Password = [], Email = []\<rparr>"

definition ex_Fetch :: "nat fetch" where
  "ex_Fetch w fetcher r =
     (case fetcher of
        v2ManifestFetcher ep auth repo \<Rightarrow>
          (if ep = endpoint_a
             then Inl (fallbackError (Some (ErrNoSupport ''no v2 here'')) False)
           else if ep = endpoint_b
             then Inl (fallbackError (Some (errorString ''manifest unknown'')) True)
           else Inl (errorString ''connection refused''),
           Suc w))"

text \<open>The same registry, where the second endpoint has not confirmed the protocol.\<close>

definition ex_Fetch_unconfirmed :: "nat fetch" where
  "ex_Fetch_unconfirmed w fetcher r =
     (Inl (fallbackError (Some (errorString ''manifest unknown'')) False), Suc w)"

text \<open>
  The same registry again, where the endpoint that fails the request has not confirmed
  the protocol, and the endpoint without support for it has.
\<close>

definition ex_Fetch_late :: "nat fetch" where
  "ex_Fetch_late w fetcher r =
     (case fetcher of
        v2ManifestFetcher ep auth repo \<Rightarrow>
          (if ep = endpoint_a
             then Inl (fallbackError (Some (ErrNoSupport ''no v2 here'')) True)
           else if ep = endpoint_b
             then Inl (fallbackError (Some (errorString ''manifest unknown'')) False)
           else Inl (errorString ''connection refused''),
           Suc w))"

text \<open>A context that is cancelled once a fetch has been made.\<close>

definition ex_Done :: "nat \<Rightarrow> bool" where
  "ex_Done w = (0 < w)"

definition vars_confirmed :: loop_vars where
  "vars_confirmed =
     \<lparr>lastErr = Some (errorString ''manifest unknown''), discardNoSupportErrors = True,
      confirmedV2 = True\<rparr>"

text \<open>Library calls that succeed: the repository is named as the reference.\<close>

definition ex_ParseRepositoryInfo :: "Named \<Rightarrow> error + RepositoryInfo" where
  "ex_ParseRepositoryInfo r = Inr ''busybox''"

definition ex_Lookup_none :: "RepositoryInfo \<Rightarrow> error + APIEndpoint list" where
  "ex_Lookup_none ri = Inr []"

definition ex_Lookup_abc :: "RepositoryInfo \<Rightarrow> error + APIEndpoint list" where
  "ex_Lookup_abc ri = Inr [endpoint_a, endpoint_b, endpoint_c]"

definition ex_Lookup_bc :: "RepositoryInfo \<Rightarrow> error + APIEndpoint list" where
  "ex_Lookup_bc ri = Inr [endpoint_b, endpoint_c]"

definition vars_after_a :: loop_vars where
  "vars_after_a =
     \<lparr>lastErr = Some (ErrNoSupport ''no v2 here''), discardNoSupportErrors = False,
      confirmedV2 = False\<rparr>"

text \<open>Two directory references.\<close>

definition ex_dir :: dirReference where
  "ex_dir = \<lparr>path = ''/img'', resolvedPath = ''/img''\<rparr>"

definition ex_dir_slash :: dirReference where
  "ex_dir_slash = \<lparr>path = ''img/'', resolvedPath = ''/srv/img''\<rparr>"

text \<open>A grammar that knows one string, with a tag and a digest.\<close>

definition ex_grammar :: "string \<Rightarrow> NamedRef option" where
  "ex_grammar s =
     (if s = ''busybox:latest@sha256:0123''
        then Some \<lparr>Name = ''busybox'', Tag = Some ''latest'', Digest = Some ''sha256:0123''\<rparr>
      else None)"


section \<open>Properties of the fallback loop\<close>

lemma on_fetch_error_confirmed_mono:
  "on_fetch_error d e s = (Continue s', evs) \<Longrightarrow> confirmedV2 s \<Longrightarrow> confirmedV2 s'"
  by (auto simp: on_fetch_error_def Let_def split: if_splits error.splits)

lemma on_fetch_error_events:
  "on_fetch_error d e s = (f, evs) \<Longrightarrow> evs = [] \<or> evs = [Debugf_NotContinuing e]"
  by (auto simp: on_fetch_error_def Let_def split: if_splits error.splits)

lemma loop_body_skip:
  "confirmedV2 s \<Longrightarrow> Version ep = APIVersion1 \<Longrightarrow>
   loop_body Done Fetch ri ac rf ep s w = (Continue s, w, [Debugf_Skipping ep])"
  by (simp add: loop_body_def)

lemma loop_body_confirmed_mono:
  "loop_body Done Fetch ri ac rf ep s w = (Continue s', w', evs) \<Longrightarrow> confirmedV2 s \<Longrightarrow>
   confirmedV2 s'"
  by (auto simp: loop_body_def split: if_splits sum.splits prod.splits
      dest: on_fetch_error_confirmed_mono)

lemma loop_body_calls:
  "loop_body Done Fetch ri ac rf ep s w = (f, w', evs) \<Longrightarrow>
   Call_newManifestFetcher ep' \<in> set evs \<or> Call_Fetch ep' \<in> set evs \<Longrightarrow>
   ep' = ep \<and> \<not> (confirmedV2 s \<and> Version ep = APIVersion1)"
  by (auto simp: loop_body_def split: if_splits sum.splits prod.splits
      dest: on_fetch_error_events)

lemma getData_loop_no_v1_calls:
  "getData_loop Done Fetch ri ac rf s w eps = (f, w', evs) \<Longrightarrow> confirmedV2 s \<Longrightarrow>
   Version ep' = APIVersion1 \<Longrightarrow>
   Call_newManifestFetcher ep' \<notin> set evs \<and> Call_Fetch ep' \<notin> set evs"
proof (induction eps arbitrary: s w f w' evs)
  case Nil
  then show ?case by simp
next
  case (Cons ep eps)
  obtain f1 w1 evs1 where b: "loop_body Done Fetch ri ac rf ep s w = (f1, w1, evs1)"
    by (cases "loop_body Done Fetch ri ac rf ep s w") auto
  have no1: "Call_newManifestFetcher ep' \<notin> set evs1 \<and> Call_Fetch ep' \<notin> set evs1"
    using loop_body_calls [OF b, of ep'] Cons.prems(2,3) by auto
  show ?case
  proof (cases f1)
    case (Return r)
    with b Cons.prems(1) have "evs = evs1" by simp
    with no1 show ?thesis by simp
  next
    case (Continue s1)
    obtain f2 w2 evs2 where l: "getData_loop Done Fetch ri ac rf s1 w1 eps = (f2, w2, evs2)"
      by (cases "getData_loop Done Fetch ri ac rf s1 w1 eps") auto
    from b Continue l Cons.prems(1) have e: "evs = evs1 @ evs2" by simp
    from b Continue have "loop_body Done Fetch ri ac rf ep s w = (Continue s1, w1, evs1)"
      by simp
    then have "confirmedV2 s1"
      using Cons.prems(2) by (rule loop_body_confirmed_mono)
    from Cons.IH [OF l this Cons.prems(3)] no1 e show ?thesis by simp
  qed
qed

lemma loop_body_V2:
  "Version ep = APIVersion2 \<Longrightarrow>
   loop_body Done Fetch ri ac rf ep s w =
     (case Fetch w (v2ManifestFetcher ep ac ri) rf of
        (Inr ii, w') \<Rightarrow>
          (Return (Inr ii), w',
           [Debugf_Trying ep, Call_newManifestFetcher ep, Call_Fetch ep])
      | (Inl err, w') \<Rightarrow>
          (fst (on_fetch_error (Done w') err s), w',
           [Debugf_Trying ep, Call_newManifestFetcher ep, Call_Fetch ep] @
           snd (on_fetch_error (Done w') err s)))"
  by (simp add: loop_body_def newManifestFetcher_def APIVersion1_def APIVersion2_def
      split: prod.splits sum.splits)

text \<open>
  Claim C1. In an iteration that starts with \<open>confirmedV2\<close> true, an endpoint of version
  \<^verbatim>\<open>APIVersion1\<close> is skipped: the variables and the world are unchanged, and the only event
  is the debug line, so no fetcher is built and no fetch is made. From such a state on,
  whatever endpoints remain, the run of the loop contains neither a call of
  \<^verbatim>\<open>newManifestFetcher\<close> nor a call of \<^verbatim>\<open>Fetch\<close> for an endpoint of version 1.
\<close>

theorem C1_skip_lower_version:
  "confirmedV2 s \<Longrightarrow> Version ep = APIVersion1 \<Longrightarrow>
   loop_body Done Fetch ri ac rf ep s w = (Continue s, w, [Debugf_Skipping ep]) \<and>
   (\<forall>eps. Call_newManifestFetcher ep \<notin> set (snd (snd (getData_loop Done Fetch ri ac rf s w eps))) \<and>
          Call_Fetch ep \<notin> set (snd (snd (getData_loop Done Fetch ri ac rf s w eps))))"
proof (intro conjI allI)
  assume c: "confirmedV2 s" and v: "Version ep = APIVersion1"
  show "loop_body Done Fetch ri ac rf ep s w = (Continue s, w, [Debugf_Skipping ep])"
    using c v by (rule loop_body_skip)
  fix eps
  obtain f w' evs where l: "getData_loop Done Fetch ri ac rf s w eps = (f, w', evs)"
    by (cases "getData_loop Done Fetch ri ac rf s w eps") auto
  from getData_loop_no_v1_calls [OF l c v] l
  show "Call_newManifestFetcher ep \<notin> set (snd (snd (getData_loop Done Fetch ri ac rf s w eps)))"
    and "Call_Fetch ep \<notin> set (snd (snd (getData_loop Done Fetch ri ac rf s w eps)))"
    by simp_all
qed

text \<open>The definitions that evaluate an example run.\<close>

lemmas ex_defs = endpoint_a_def endpoint_b_def endpoint_c_def endpoint_d_def no_auth_def
  ex_Fetch_def ex_Done_def vars_confirmed_def loop_body_def newManifestFetcher_def
  on_fetch_error_def APIVersion1_def APIVersion2_def init_vars_def Background_def

theorem C1_skip_lower_version_witness:
  "confirmedV2 vars_confirmed \<and> Version endpoint_c = APIVersion1 \<and>
   loop_body Background ex_Fetch ''busybox'' no_auth ''busybox:latest'' endpoint_c vars_confirmed 2 =
     (Continue vars_confirmed, 2, [Debugf_Skipping endpoint_c]) \<and>
   Call_Fetch endpoint_c \<notin> set (snd (snd (getData_loop Background ex_Fetch ''busybox'' no_auth
     ''busybox:latest'' vars_confirmed 2 [endpoint_c, endpoint_d, endpoint_c])))"
proof -
  have c: "confirmedV2 vars_confirmed" by (simp add: vars_confirmed_def)
  have v: "Version endpoint_c = APIVersion1" by (simp add: endpoint_c_def)
  from C1_skip_lower_version [OF c v, of Background ex_Fetch "''busybox''" no_auth "''busybox:latest''" 2] c v
  show ?thesis by blast
qed

lemma ex_run_spec:
  "getData_loop Background ex_Fetch ''busybox'' no_auth ''busybox:latest'' init_vars 0
     [endpoint_a, endpoint_b, endpoint_c] =
   (Continue vars_confirmed, 2,
    [Debugf_Trying endpoint_a, Call_newManifestFetcher endpoint_a, Call_Fetch endpoint_a,
     Debugf_Trying endpoint_b, Call_newManifestFetcher endpoint_b, Call_Fetch endpoint_b,
     Debugf_Skipping endpoint_c])"
  by (simp add: ex_defs)

lemma on_fetch_error_done:
  "on_fetch_error True e s = (Return (Inl e), [Debugf_NotContinuing e])"
  by (simp add: on_fetch_error_def)

lemma on_fetch_error_other:
  "\<forall>inner c. e \<noteq> fallbackError inner c \<Longrightarrow>
   on_fetch_error d e s = (Return (Inl e), [Debugf_NotContinuing e])"
proof (cases e)
  case (fallbackError inner c)
  assume "\<forall>inner c. e \<noteq> fallbackError inner c"
  with fallbackError show ?thesis by blast
qed (simp_all add: on_fetch_error_def)

lemma on_fetch_error_fallback:
  "on_fetch_error False (fallbackError inner c) s =
     (Continue
        (if \<not> isErrNoSupport inner
           then s\<lparr>confirmedV2 := confirmedV2 s \<or> c, discardNoSupportErrors := True,
                  lastErr := inner\<rparr>
         else if \<not> discardNoSupportErrors s
           then s\<lparr>confirmedV2 := confirmedV2 s \<or> c, lastErr := inner\<rparr>
         else s\<lparr>confirmedV2 := confirmedV2 s \<or> c\<rparr>), [])"
  by (simp add: on_fetch_error_def Let_def)

lemma loop_body_fetch_failed:
  "Version ep = APIVersion2 \<Longrightarrow> Fetch w (v2ManifestFetcher ep ac ri) rf = (Inl e, w') \<Longrightarrow>
   loop_body Done Fetch ri ac rf ep s w =
     (fst (on_fetch_error (Done w') e s), w',
      [Debugf_Trying ep, Call_newManifestFetcher ep, Call_Fetch ep] @
      snd (on_fetch_error (Done w') e s))"
  by (simp add: loop_body_V2)

text \<open>
  Claim C4. If the fetch of an endpoint fails and the context is done when the loop looks
  at it, the loop returns that failure as it is (a \<^verbatim>\<open>fallbackError\<close> is not unwrapped), and
  the run ends with this attempt: the remaining endpoints are not touched. The loop is
  taken with the state of the context as a parameter; \<^verbatim>\<open>getData\<close> itself passes
  \<^verbatim>\<open>context.Background()\<close>, which is never done.
\<close>

theorem C4_cancellation_stops:
  "Version ep = APIVersion2 \<Longrightarrow> Fetch w (v2ManifestFetcher ep ac ri) rf = (Inl e, w') \<Longrightarrow>
   Done w' \<Longrightarrow>
   getData_loop Done Fetch ri ac rf s w (ep # eps) =
     (Return (Inl e), w',
      [Debugf_Trying ep, Call_newManifestFetcher ep, Call_Fetch ep, Debugf_NotContinuing e])"
  by (simp add: loop_body_fetch_failed on_fetch_error_done)

theorem C4_cancellation_stops_witness:
  "Version endpoint_a = APIVersion2 \<and>
   ex_Fetch 0 (v2ManifestFetcher endpoint_a no_auth ''busybox'') ''busybox:latest'' =
     (Inl (fallbackError (Some (ErrNoSupport ''no v2 here'')) False), 1) \<and>
   ex_Done 1 \<and>
   getData_loop ex_Done ex_Fetch ''busybox'' no_auth ''busybox:latest'' init_vars 0
     [endpoint_a, endpoint_b, endpoint_c] =
     (Return (Inl (fallbackError (Some (ErrNoSupport ''no v2 here'')) False)), 1,
      [Debugf_Trying endpoint_a, Call_newManifestFetcher endpoint_a, Call_Fetch endpoint_a,
       Debugf_NotContinuing (fallbackError (Some (ErrNoSupport ''no v2 here'')) False)])"
proof -
  have v: "Version endpoint_a = APIVersion2" by (simp add: endpoint_a_def)
  have f: "ex_Fetch 0 (v2ManifestFetcher endpoint_a no_auth ''busybox'') ''busybox:latest'' =
     (Inl (fallbackError (Some (ErrNoSupport ''no v2 here'')) False), 1)"
    by (simp add: ex_Fetch_def)
  have d: "ex_Done 1" by (simp add: ex_Done_def)
  have "getData_loop ex_Done ex_Fetch ''busybox'' no_auth ''busybox:latest'' init_vars 0
     (endpoint_a # [endpoint_b, endpoint_c]) =
     (Return (Inl (fallbackError (Some (ErrNoSupport ''no v2 here'')) False)), 1,
      [Debugf_Trying endpoint_a, Call_newManifestFetcher endpoint_a, Call_Fetch endpoint_a,
       Debugf_NotContinuing (fallbackError (Some (ErrNoSupport ''no v2 here'')) False)])"
    using v f d by (rule C4_cancellation_stops)
  with v f d show ?thesis by simp
qed

text \<open>
  Claim C10. If the fetch of an endpoint fails with an error that is not a
  \<^verbatim>\<open>fallbackError\<close> and the context is not done, the loop returns that error and the run ends
  with this attempt. After a failed fetch with the context not done, the iteration goes
  on to the next endpoint exactly when the error is a \<^verbatim>\<open>fallbackError\<close>.
\<close>

theorem C10_other_failure_returns:
  "Version ep = APIVersion2 \<Longrightarrow> Fetch w (v2ManifestFetcher ep ac ri) rf = (Inl e, w') \<Longrightarrow>
   \<not> Done w' \<Longrightarrow>
   ((\<forall>inner c. e \<noteq> fallbackError inner c) \<longrightarrow>
      getData_loop Done Fetch ri ac rf s w (ep # eps) =
        (Return (Inl e), w',
         [Debugf_Trying ep, Call_newManifestFetcher ep, Call_Fetch ep,
          Debugf_NotContinuing e])) \<and>
   ((\<exists>s'. fst (loop_body Done Fetch ri ac rf ep s w) = Continue s') \<longleftrightarrow>
      (\<exists>inner c. e = fallbackError inner c))"
proof (intro conjI impI)
  assume v: "Version ep = APIVersion2"
    and f: "Fetch w (v2ManifestFetcher ep ac ri) rf = (Inl e, w')"
    and d: "\<not> Done w'"
  have b: "loop_body Done Fetch ri ac rf ep s w =
     (fst (on_fetch_error (Done w') e s), w',
      [Debugf_Trying ep, Call_newManifestFetcher ep, Call_Fetch ep] @
      snd (on_fetch_error (Done w') e s))"
    using v f by (rule loop_body_fetch_failed)
  {
    assume n: "\<forall>inner c. e \<noteq> fallbackError inner c"
    show "getData_loop Done Fetch ri ac rf s w (ep # eps) =
        (Return (Inl e), w',
         [Debugf_Trying ep, Call_newManifestFetcher ep, Call_Fetch ep,
          Debugf_NotContinuing e])"
      by (simp add: b on_fetch_error_other [OF n])
  }
  show "(\<exists>s'. fst (loop_body Done Fetch ri ac rf ep s w) = Continue s') \<longleftrightarrow>
      (\<exists>inner c. e = fallbackError inner c)"
  proof (cases "\<exists>inner c. e = fallbackError inner c")
    case True
    then obtain inner c where "e = fallbackError inner c" by blast
    with d True show ?thesis by (simp add: b on_fetch_error_fallback)
  next
    case False
    then have "\<forall>inner c. e \<noteq> fallbackError inner c" by blast
    from on_fetch_error_other [OF this] False show ?thesis by (simp add: b)
  qed
qed

theorem C10_other_failure_returns_witness:
  "Version endpoint_d = APIVersion2 \<and>
   ex_Fetch 0 (v2ManifestFetcher endpoint_d no_auth ''busybox'') ''busybox:latest'' =
     (Inl (errorString ''connection refused''), 1) \<and>
   \<not> Background (1::nat) \<and>
   getData_loop Background ex_Fetch ''busybox'' no_auth ''busybox:latest'' init_vars 0
     [endpoint_d, endpoint_a, endpoint_b] =
     (Return (Inl (errorString ''connection refused'')), 1,
      [Debugf_Trying endpoint_d, Call_newManifestFetcher endpoint_d, Call_Fetch endpoint_d,
       Debugf_NotContinuing (errorString ''connection refused'')])"
proof -
  have v: "Version endpoint_d = APIVersion2" by (simp add: endpoint_d_def)
  have f: "ex_Fetch 0 (v2ManifestFetcher endpoint_d no_auth ''busybox'') ''busybox:latest'' =
     (Inl (errorString ''connection refused''), 1)"
    by (simp add: ex_Fetch_def endpoint_a_def endpoint_b_def endpoint_d_def)
  have d: "\<not> Background (1::nat)" by (simp add: Background_def)
  have n: "\<forall>inner c. errorString ''connection refused'' \<noteq> fallbackError inner c" by simp
  have "(\<forall>inner c. errorString ''connection refused'' \<noteq> fallbackError inner c) \<longrightarrow>
     getData_loop Background ex_Fetch ''busybox'' no_auth ''busybox:latest'' init_vars 0
       (endpoint_d # [endpoint_a, endpoint_b]) =
     (Return (Inl (errorString ''connection refused'')), 1,
      [Debugf_Trying endpoint_d, Call_newManifestFetcher endpoint_d, Call_Fetch endpoint_d,
       Debugf_NotContinuing (errorString ''connection refused'')])"
    using C10_other_failure_returns [where Fetch = ex_Fetch and Done = Background and w = 0 and w' = 1
        and ep = endpoint_d and e = "errorString ''connection refused''"
        and ac = no_auth and ri = "''busybox''" and rf = "''busybox:latest''"
        and s = init_vars and eps = "[endpoint_a, endpoint_b]"] v f d
    by blast
  with n v f d show ?thesis by simp
qed

lemma itoa_1: "itoa 1 = ''1''"
  by (simp add: itoa_def digits.simps)

lemma loop_body_fetch_only_V2:
  "Call_Fetch ep' \<in> set (snd (snd (loop_body Done Fetch ri ac rf ep s w))) \<Longrightarrow>
   ep' = ep \<and> Version ep = APIVersion2"
  by (auto simp: loop_body_def newManifestFetcher_def split: if_splits sum.splits prod.splits
      dest: on_fetch_error_events)

lemma getData_loop_fetch_only_V2:
  "Call_Fetch ep' \<in> set (snd (snd (getData_loop Done Fetch ri ac rf s w eps))) \<Longrightarrow>
   Version ep' = APIVersion2"
proof (induction eps arbitrary: s w)
  case Nil
  then show ?case by simp
next
  case (Cons ep eps)
  obtain f1 w1 evs1 where b: "loop_body Done Fetch ri ac rf ep s w = (f1, w1, evs1)"
    by (cases "loop_body Done Fetch ri ac rf ep s w") auto
  show ?case
  proof (cases "Call_Fetch ep' \<in> set evs1")
    case True
    with b loop_body_fetch_only_V2 [of ep' Done Fetch ri ac rf ep s w] show ?thesis by simp
  next
    case False
    with b Cons.prems obtain s1 where c: "f1 = Continue s1"
      and "Call_Fetch ep' \<in> set (snd (snd (getData_loop Done Fetch ri ac rf s1 w1 eps)))"
      by (cases f1) (auto split: prod.splits)
    then show ?thesis by (rule_tac Cons.IH)
  qed
qed

text \<open>
  Claim C9. \<^verbatim>\<open>newManifestFetcher\<close> returns a fetcher exactly for version 2, and the
  \<^verbatim>\<open>unknown version\<close> error for every other version. An iteration on a version-1 endpoint
  always continues with the next endpoint: where \<open>confirmedV2\<close> is set the endpoint is
  skipped before any construction, otherwise the construction error becomes \<open>lastErr\<close>.
  No run of the loop fetches from an endpoint whose version is not 2.
\<close>

theorem C9_only_v2_is_fetched:
  "((\<exists>fetcher. newManifestFetcher ep ri ac = Inr fetcher) \<longleftrightarrow> Version ep = APIVersion2) \<and>
   (Version ep \<noteq> APIVersion2 \<longrightarrow>
      newManifestFetcher ep ri ac =
        Inl (errorString (''unknown version '' @ itoa (Version ep) @ '' for registry '' @ URL ep))) \<and>
   (Version ep = APIVersion1 \<longrightarrow>
      loop_body Done Fetch ri ac rf ep s w =
        (if confirmedV2 s then (Continue s, w, [Debugf_Skipping ep])
         else (Continue (s\<lparr>lastErr :=
                   Some (errorString (''unknown version 1 for registry '' @ URL ep))\<rparr>), w,
               [Debugf_Trying ep, Call_newManifestFetcher ep]))) \<and>
   (Version ep \<noteq> APIVersion2 \<longrightarrow>
      Call_Fetch ep \<notin> set (snd (snd (getData_loop Done Fetch ri ac rf s w eps))))"
proof (intro conjI impI)
  show "(\<exists>fetcher. newManifestFetcher ep ri ac = Inr fetcher) \<longleftrightarrow> Version ep = APIVersion2"
    by (simp add: newManifestFetcher_def)
  show "newManifestFetcher ep ri ac =
        Inl (errorString (''unknown version '' @ itoa (Version ep) @ '' for registry '' @ URL ep))"
    if "Version ep \<noteq> APIVersion2"
    using that by (simp add: newManifestFetcher_def)
  show "loop_body Done Fetch ri ac rf ep s w =
        (if confirmedV2 s then (Continue s, w, [Debugf_Skipping ep])
         else (Continue (s\<lparr>lastErr :=
                   Some (errorString (''unknown version 1 for registry '' @ URL ep))\<rparr>), w,
               [Debugf_Trying ep, Call_newManifestFetcher ep]))"
    if "Version ep = APIVersion1"
    using that
    by (simp add: loop_body_def newManifestFetcher_def APIVersion1_def APIVersion2_def itoa_1)
  show "Call_Fetch ep \<notin> set (snd (snd (getData_loop Done Fetch ri ac rf s w eps)))"
    if "Version ep \<noteq> APIVersion2"
    using that getData_loop_fetch_only_V2 [of ep Done Fetch ri ac rf s w eps] by blast
qed

theorem C9_only_v2_is_fetched_witness:
  "Version endpoint_c = APIVersion1 \<and> Version endpoint_c \<noteq> APIVersion2 \<and>
   newManifestFetcher endpoint_c ''busybox'' no_auth =
     Inl (errorString ''unknown version 1 for registry https://c.example'') \<and>
   loop_body Background ex_Fetch ''busybox'' no_auth ''busybox:latest'' endpoint_c vars_after_a (1::nat) =
     (Continue (vars_after_a\<lparr>lastErr :=
        Some (errorString ''unknown version 1 for registry https://c.example'')\<rparr>), 1,
      [Debugf_Trying endpoint_c, Call_newManifestFetcher endpoint_c]) \<and>
   Call_Fetch endpoint_c \<notin> set (snd (snd (getData_loop Background ex_Fetch ''busybox'' no_auth
     ''busybox:latest'' init_vars 0 [endpoint_a, endpoint_c, endpoint_b])))"
proof -
  have v: "Version endpoint_c = APIVersion1" "Version endpoint_c \<noteq> APIVersion2"
    "\<not> confirmedV2 vars_after_a" "URL endpoint_c = ''https://c.example''"
    by (simp_all add: endpoint_c_def APIVersion1_def APIVersion2_def vars_after_a_def)
  from C9_only_v2_is_fetched [of endpoint_c "''busybox''" no_auth Background ex_Fetch "''busybox:latest''"
      vars_after_a "1::nat"] v
  have 1: "newManifestFetcher endpoint_c ''busybox'' no_auth =
     Inl (errorString ''unknown version 1 for registry https://c.example'')"
    and 2: "loop_body Background ex_Fetch ''busybox'' no_auth ''busybox:latest'' endpoint_c vars_after_a (1::nat) =
     (Continue (vars_after_a\<lparr>lastErr :=
        Some (errorString ''unknown version 1 for registry https://c.example'')\<rparr>), 1,
      [Debugf_Trying endpoint_c, Call_newManifestFetcher endpoint_c])"
    by (simp_all add: itoa_1 APIVersion1_def)
  from C9_only_v2_is_fetched [of endpoint_c "''busybox''" no_auth Background ex_Fetch "''busybox:latest''"
      init_vars "0::nat" "[endpoint_a, endpoint_c, endpoint_b]"] v
  have 3: "Call_Fetch endpoint_c \<notin> set (snd (snd (getData_loop Background ex_Fetch ''busybox'' no_auth
     ''busybox:latest'' init_vars 0 [endpoint_a, endpoint_c, endpoint_b])))"
    by blast
  from v 1 2 3 show ?thesis by blast
qed

lemma loop_body_records:
  assumes wf: "\<forall>w f r c w'. Fetch w f r \<noteq> (Inl (fallbackError None c), w')"
    and inv: "(discardNoSupportErrors s \<longrightarrow> lastErr s \<noteq> None) \<and> (confirmedV2 s \<longrightarrow> lastErr s \<noteq> None)"
    and b: "loop_body Done Fetch ri ac rf ep s w = (Continue s', w', evs)"
  shows "lastErr s' \<noteq> None"
proof (cases "confirmedV2 s \<and> Version ep = APIVersion1")
  case True
  with b inv show ?thesis by (auto simp: loop_body_def)
next
  case skip: False
  show ?thesis
  proof (cases "Version ep = APIVersion2")
    case False
    with b skip show ?thesis by (auto simp: loop_body_def newManifestFetcher_def)
  next
    case True
    obtain r w1 where f: "Fetch w (v2ManifestFetcher ep ac ri) rf = (r, w1)"
      by (cases "Fetch w (v2ManifestFetcher ep ac ri) rf") auto
    show ?thesis
    proof (cases r)
      case (Inr ii)
      with b f True show ?thesis by (simp add: loop_body_V2)
    next
      case (Inl e)
      with b f True have o: "fst (on_fetch_error (Done w1) e s) = Continue s'"
        by (auto simp: loop_body_V2)
      show ?thesis
      proof (cases "\<exists>inner c. e = fallbackError inner c")
        case False
        then have "\<forall>inner c. e \<noteq> fallbackError inner c" by blast
        from on_fetch_error_other [OF this] o show ?thesis by simp
      next
        case True
        then obtain inner c where e: "e = fallbackError inner c" by blast
        have "inner \<noteq> None"
        proof
          assume "inner = None"
          with f Inl e have "Fetch w (v2ManifestFetcher ep ac ri) rf = (Inl (fallbackError None c), w1)"
            by simp
          with wf show False by blast
        qed
        then obtain e' where i: "inner = Some e'" by auto
        from o have nd: "\<not> Done w1" by (auto simp: on_fetch_error_def)
        with o e i inv show ?thesis
          by (auto simp: on_fetch_error_fallback split: if_splits)
      qed
    qed
  qed
qed

lemma loop_body_keeps_recorded:
  assumes "lastErr s \<noteq> None"
    and wf: "\<forall>w f r c w'. Fetch w f r \<noteq> (Inl (fallbackError None c), w')"
    and b: "loop_body Done Fetch ri ac rf ep s w = (Continue s', w', evs)"
  shows "lastErr s' \<noteq> None"
  using loop_body_records [OF wf _ b] assms(1) by simp

lemma getData_loop_keeps_recorded:
  assumes wf: "\<forall>w f r c w'. Fetch w f r \<noteq> (Inl (fallbackError None c), w')"
  shows "lastErr s \<noteq> None \<Longrightarrow>
    getData_loop Done Fetch ri ac rf s w eps = (Continue s', w', evs) \<Longrightarrow> lastErr s' \<noteq> None"
proof (induction eps arbitrary: s w evs)
  case Nil
  then show ?case by simp
next
  case (Cons ep eps)
  obtain f1 w1 evs1 where b: "loop_body Done Fetch ri ac rf ep s w = (f1, w1, evs1)"
    by (cases "loop_body Done Fetch ri ac rf ep s w") auto
  with Cons.prems(2) obtain s1 where c: "f1 = Continue s1"
    by (cases f1) auto
  obtain f2 w2 evs2 where l: "getData_loop Done Fetch ri ac rf s1 w1 eps = (f2, w2, evs2)"
    by (cases "getData_loop Done Fetch ri ac rf s1 w1 eps") auto
  with b c Cons.prems(2) have l': "getData_loop Done Fetch ri ac rf s1 w1 eps = (Continue s', w', evs2)"
    by simp
  from b c have "loop_body Done Fetch ri ac rf ep s w = (Continue s1, w1, evs1)" by simp
  from loop_body_keeps_recorded [OF Cons.prems(1) wf this] have "lastErr s1 \<noteq> None" .
  from Cons.IH [OF this l'] show ?case .
qed

lemma exhausted_from_init:
  assumes wf: "\<forall>w f r c w'. Fetch w f r \<noteq> (Inl (fallbackError None c), w')"
    and l: "getData_loop Done Fetch ri ac rf init_vars w eps = (Continue s', w', evs)"
  shows "lastErr s' = None \<longleftrightarrow> eps = []"
proof (cases eps)
  case Nil
  with l show ?thesis by (auto simp: init_vars_def)
next
  case (Cons ep eps')
  obtain f1 w1 evs1 where b: "loop_body Done Fetch ri ac rf ep init_vars w = (f1, w1, evs1)"
    by (cases "loop_body Done Fetch ri ac rf ep init_vars w") auto
  with l Cons obtain s1 where c: "f1 = Continue s1"
    by (cases f1) auto
  obtain f2 w2 evs2 where "getData_loop Done Fetch ri ac rf s1 w1 eps' = (f2, w2, evs2)"
    by (cases "getData_loop Done Fetch ri ac rf s1 w1 eps'") auto
  with b c l Cons have l': "getData_loop Done Fetch ri ac rf s1 w1 eps' = (Continue s', w', evs2)"
    by simp
  from b c have b': "loop_body Done Fetch ri ac rf ep init_vars w = (Continue s1, w1, evs1)" by simp
  have "lastErr s1 \<noteq> None"
    by (rule loop_body_records [OF wf _ b']) (simp add: init_vars_def)
  from getData_loop_keeps_recorded [OF wf this l'] Cons show ?thesis by simp
qed

text \<open>
  Claim C5. When the loop exhausts the endpoints, \<^verbatim>\<open>getData\<close> fails with the
  \<^verbatim>\<open>no endpoints found\<close> error if \<open>lastErr\<close> is nil, and with \<open>lastErr\<close> otherwise. Where no
  fetch wraps a nil error in a \<^verbatim>\<open>fallbackError\<close>, \<open>lastErr\<close> is nil at that point exactly
  when the list of endpoints is empty.
\<close>

theorem C5_exhausted_error:
  assumes "ParseRepositoryInfo rf = Inr ri"
    and "validateRepoName nb ri = None"
    and "LookupPullEndpoints ri = Inr eps"
    and "getData_loop Background Fetch ri ac rf init_vars w eps = (Continue s, w', evs)"
  shows "getData ParseRepositoryInfo nb LookupPullEndpoints Fetch rf ac w =
           ((case lastErr s of
               None \<Rightarrow> Inl (errorString (''no endpoints found for '' @ rf))
             | Some e \<Rightarrow> Inl e), w', evs) \<and>
         ((\<forall>w f r c w'. Fetch w f r \<noteq> (Inl (fallbackError None c), w')) \<longrightarrow>
            (lastErr s = None \<longleftrightarrow> eps = []))"
proof
  show "getData ParseRepositoryInfo nb LookupPullEndpoints Fetch rf ac w =
           ((case lastErr s of
               None \<Rightarrow> Inl (errorString (''no endpoints found for '' @ rf))
             | Some e \<Rightarrow> Inl e), w', evs)"
    using assms by (simp add: getData_def after_loop_def)
  show "(\<forall>w f r c w'. Fetch w f r \<noteq> (Inl (fallbackError None c), w')) \<longrightarrow>
            (lastErr s = None \<longleftrightarrow> eps = [])"
    using exhausted_from_init [OF _ assms(4)] by blast
qed

theorem C5_exhausted_error_witness:
  "getData ex_ParseRepositoryInfo ''scratch'' ex_Lookup_none ex_Fetch ''busybox:latest'' no_auth 0 =
     (Inl (errorString ''no endpoints found for busybox:latest''), 0, []) \<and>
   fst (getData ex_ParseRepositoryInfo ''scratch'' ex_Lookup_abc ex_Fetch ''busybox:latest'' no_auth 0) =
     Inl (errorString ''manifest unknown'')"
proof -
  have p: "ex_ParseRepositoryInfo ''busybox:latest'' = Inr ''busybox''"
    by (simp add: ex_ParseRepositoryInfo_def)
  have v: "validateRepoName ''scratch'' ''busybox'' = None"
    by (simp add: validateRepoName_def)
  have l0: "ex_Lookup_none ''busybox'' = Inr []" by (simp add: ex_Lookup_none_def)
  have l3: "ex_Lookup_abc ''busybox'' = Inr [endpoint_a, endpoint_b, endpoint_c]"
    by (simp add: ex_Lookup_abc_def)
  have r0: "getData_loop Background ex_Fetch ''busybox'' no_auth ''busybox:latest'' init_vars 0 [] =
    (Continue init_vars, 0, [])" by simp
  have r3: "getData_loop Background ex_Fetch ''busybox'' no_auth ''busybox:latest'' init_vars 0
     [endpoint_a, endpoint_b, endpoint_c] =
   (Continue vars_confirmed, 2,
    [Debugf_Trying endpoint_a, Call_newManifestFetcher endpoint_a, Call_Fetch endpoint_a,
     Debugf_Trying endpoint_b, Call_newManifestFetcher endpoint_b, Call_Fetch endpoint_b,
     Debugf_Skipping endpoint_c])"
    by (rule ex_run_spec)
  from C5_exhausted_error [where ParseRepositoryInfo = ex_ParseRepositoryInfo and LookupPullEndpoints = ex_Lookup_none
      and Fetch = ex_Fetch, OF p v l0 r0] have a: "getData ex_ParseRepositoryInfo ''scratch'' ex_Lookup_none ex_Fetch
      ''busybox:latest'' no_auth 0 =
     (Inl (errorString ''no endpoints found for busybox:latest''), 0, [])"
    by (simp add: init_vars_def)
  from C5_exhausted_error [where ParseRepositoryInfo = ex_ParseRepositoryInfo and LookupPullEndpoints = ex_Lookup_abc
      and Fetch = ex_Fetch, OF p v l3 r3] have b: "fst (getData ex_ParseRepositoryInfo ''scratch'' ex_Lookup_abc ex_Fetch
      ''busybox:latest'' no_auth 0) = Inl (errorString ''manifest unknown'')"
    by (simp add: vars_confirmed_def)
  from a b show ?thesis by blast
qed

lemma loop_body_keeps_discard:
  assumes inv: "discardNoSupportErrors s \<and> \<not> isErrNoSupport (lastErr s)"
    and b: "loop_body Done Fetch ri ac rf ep s w = (Continue s', w', evs)"
  shows "discardNoSupportErrors s' \<and> \<not> isErrNoSupport (lastErr s')"
proof (cases "confirmedV2 s \<and> Version ep = APIVersion1")
  case True
  with b inv show ?thesis by (auto simp: loop_body_def)
next
  case skip: False
  show ?thesis
  proof (cases "Version ep = APIVersion2")
    case False
    with b skip inv show ?thesis by (auto simp: loop_body_def newManifestFetcher_def)
  next
    case True
    obtain r w1 where f: "Fetch w (v2ManifestFetcher ep ac ri) rf = (r, w1)"
      by (cases "Fetch w (v2ManifestFetcher ep ac ri) rf") auto
    show ?thesis
    proof (cases r)
      case (Inr ii)
      with b f True show ?thesis by (simp add: loop_body_V2)
    next
      case (Inl e)
      with b f True have o: "fst (on_fetch_error (Done w1) e s) = Continue s'"
        by (auto simp: loop_body_V2)
      show ?thesis
      proof (cases "\<exists>inner c. e = fallbackError inner c")
        case False
        then have "\<forall>inner c. e \<noteq> fallbackError inner c" by blast
        from on_fetch_error_other [OF this] o show ?thesis by simp
      next
        case True
        then obtain inner c where e: "e = fallbackError inner c" by blast
        from o have nd: "\<not> Done w1" by (auto simp: on_fetch_error_def)
        with o e inv show ?thesis
          by (auto simp: on_fetch_error_fallback split: if_splits)
      qed
    qed
  qed
qed

lemma getData_loop_keeps_discard:
  "discardNoSupportErrors s \<and> \<not> isErrNoSupport (lastErr s) \<Longrightarrow>
   getData_loop Done Fetch ri ac rf s w eps = (Continue s', w', evs) \<Longrightarrow>
   discardNoSupportErrors s' \<and> \<not> isErrNoSupport (lastErr s')"
proof (induction eps arbitrary: s w evs)
  case Nil
  then show ?case by auto
next
  case (Cons ep eps)
  obtain f1 w1 evs1 where b: "loop_body Done Fetch ri ac rf ep s w = (f1, w1, evs1)"
    by (cases "loop_body Done Fetch ri ac rf ep s w") auto
  with Cons.prems(2) obtain s1 where c: "f1 = Continue s1"
    by (cases f1) auto
  obtain f2 w2 evs2 where l: "getData_loop Done Fetch ri ac rf s1 w1 eps = (f2, w2, evs2)"
    by (cases "getData_loop Done Fetch ri ac rf s1 w1 eps") auto
  with b c Cons.prems(2) have l': "getData_loop Done Fetch ri ac rf s1 w1 eps = (Continue s', w', evs2)"
    by simp
  from b c have "loop_body Done Fetch ri ac rf ep s w = (Continue s1, w1, evs1)" by simp
  from loop_body_keeps_discard [OF Cons.prems(1) this]
  have "discardNoSupportErrors s1 \<and> \<not> isErrNoSupport (lastErr s1)" .
  from Cons.IH [OF this l'] show ?case .
qed

lemma after_loop_not_ErrNoSupport:
  "\<not> isErrNoSupport (lastErr s) \<Longrightarrow> after_loop rf s \<noteq> Inl (ErrNoSupport m)"
  by (cases "lastErr s") (auto simp: after_loop_def)

lemma getData_loop_only_no_support:
  "only_no_support Done Fetch ri ac rf (confirmedV2 s) w eps \<Longrightarrow>
   discardNoSupportErrors s \<Longrightarrow>
   \<exists>s' w' evs. getData_loop Done Fetch ri ac rf s w eps = (Continue s', w', evs) \<and>
      lastErr s' = lastErr s"
proof (induction eps arbitrary: s w)
  case Nil
  then show ?case by simp
next
  case (Cons ep eps)
  show ?case
  proof (cases "confirmedV2 s \<and> Version ep = APIVersion1")
    case True
    with Cons.prems(1) have "only_no_support Done Fetch ri ac rf (confirmedV2 s) w eps"
      by simp
    from Cons.IH [OF this Cons.prems(2)]
    obtain s' w' evs where "getData_loop Done Fetch ri ac rf s w eps = (Continue s', w', evs)"
      and "lastErr s' = lastErr s" by blast
    with True show ?thesis by (simp add: loop_body_skip)
  next
    case False
    with Cons.prems(1) have v: "Version ep = APIVersion2"
      and r: "(case Fetch w (v2ManifestFetcher ep ac ri) rf of
           (Inl (fallbackError inner c), w') \<Rightarrow>
             isErrNoSupport inner \<and> \<not> Done w' \<and>
             only_no_support Done Fetch ri ac rf (confirmedV2 s \<or> c) w' eps
         | _ \<Rightarrow> False)"
      by simp_all
    from r have "\<exists>inner c w1. Fetch w (v2ManifestFetcher ep ac ri) rf =
            (Inl (fallbackError inner c), w1) \<and> isErrNoSupport inner \<and> \<not> Done w1 \<and>
            only_no_support Done Fetch ri ac rf (confirmedV2 s \<or> c) w1 eps"
      by (simp split: prod.splits sum.splits error.splits)
    then obtain inner c w1 where
      f: "Fetch w (v2ManifestFetcher ep ac ri) rf = (Inl (fallbackError inner c), w1)"
      and i: "isErrNoSupport inner"
      and d: "\<not> Done w1"
      and o: "only_no_support Done Fetch ri ac rf (confirmedV2 s \<or> c) w1 eps"
      by blast
    let ?s1 = "s\<lparr>confirmedV2 := confirmedV2 s \<or> c\<rparr>"
    have b: "loop_body Done Fetch ri ac rf ep s w =
        (Continue ?s1, w1, [Debugf_Trying ep, Call_newManifestFetcher ep, Call_Fetch ep])"
      using v f i d Cons.prems(2) by (simp add: loop_body_fetch_failed on_fetch_error_fallback)
    from o have o': "only_no_support Done Fetch ri ac rf (confirmedV2 ?s1) w1 eps" by simp
    from Cons.prems(2) have d': "discardNoSupportErrors ?s1" by simp
    from Cons.IH [OF o' d']
    obtain s' w' evs where "getData_loop Done Fetch ri ac rf ?s1 w1 eps = (Continue s', w', evs)"
      and "lastErr s' = lastErr ?s1" by blast
    with b show ?thesis by simp
  qed
qed

text \<open>
  Claim C2, as amended. A fetch failure that allows fallback and whose inner error is not
  \<^verbatim>\<open>ErrNoSupport\<close> is recorded: the iteration sets the discard flag and \<open>lastErr\<close>. If the
  list is then exhausted, the flag is still set and the error returned is not an
  \<^verbatim>\<open>ErrNoSupport\<close>. If every later endpoint, in the state and the world in which the
  loop reaches it, is skipped or fails, eligible for fallback, with \<^verbatim>\<open>ErrNoSupport\<close>, the
  list is exhausted with \<open>lastErr\<close> still that error. In any
  iteration that starts with the flag set, such an \<^verbatim>\<open>ErrNoSupport\<close> failure leaves
  \<open>lastErr\<close> and the flag as they are.
\<close>

theorem C2_concrete_error_kept:
  assumes v: "Version ep = APIVersion2"
    and f: "Fetch w (v2ManifestFetcher ep ac ri) rf = (Inl (fallbackError inner c), w1)"
    and d: "\<not> Done w1"
    and n: "\<not> isErrNoSupport inner"
  shows "loop_body Done Fetch ri ac rf ep s w =
           (Continue (s\<lparr>confirmedV2 := confirmedV2 s \<or> c, discardNoSupportErrors := True,
                       lastErr := inner\<rparr>), w1,
            [Debugf_Trying ep, Call_newManifestFetcher ep, Call_Fetch ep]) \<and>
         (\<forall>eps s' w' evs.
            getData_loop Done Fetch ri ac rf s w (ep # eps) = (Continue s', w', evs) \<longrightarrow>
              discardNoSupportErrors s' \<and> \<not> isErrNoSupport (lastErr s') \<and>
              (\<forall>m. after_loop rf s' \<noteq> Inl (ErrNoSupport m))) \<and>
         (\<forall>eps.
            only_no_support Done Fetch ri ac rf (confirmedV2 s \<or> c) w1 eps \<longrightarrow>
              (\<exists>s' w' evs.
                 getData_loop Done Fetch ri ac rf s w (ep # eps) = (Continue s', w', evs) \<and>
                 lastErr s' = inner)) \<and>
         (\<forall>s2 ep2 w2 m c2 w3.
            discardNoSupportErrors s2 \<and> Version ep2 = APIVersion2 \<and>
            Fetch w2 (v2ManifestFetcher ep2 ac ri) rf =
              (Inl (fallbackError (Some (ErrNoSupport m)) c2), w3) \<and> \<not> Done w3 \<longrightarrow>
              (\<exists>s3. fst (loop_body Done Fetch ri ac rf ep2 s2 w2) = Continue s3 \<and>
                    lastErr s3 = lastErr s2 \<and> discardNoSupportErrors s3))"
proof (intro conjI allI impI)
  let ?s1 = "s\<lparr>confirmedV2 := confirmedV2 s \<or> c, discardNoSupportErrors := True, lastErr := inner\<rparr>"
  show b: "loop_body Done Fetch ri ac rf ep s w =
     (Continue ?s1, w1, [Debugf_Trying ep, Call_newManifestFetcher ep, Call_Fetch ep])"
    using v f d n by (simp add: loop_body_fetch_failed on_fetch_error_fallback)
  have inv: "discardNoSupportErrors ?s1 \<and> \<not> isErrNoSupport (lastErr ?s1)"
    using n by simp
  {
    fix eps s' w' evs
    assume l: "getData_loop Done Fetch ri ac rf s w (ep # eps) = (Continue s', w', evs)"
    obtain f2 w2 evs2 where "getData_loop Done Fetch ri ac rf ?s1 w1 eps = (f2, w2, evs2)"
      by (cases "getData_loop Done Fetch ri ac rf ?s1 w1 eps") auto
    with l b have "getData_loop Done Fetch ri ac rf ?s1 w1 eps = (Continue s', w', evs2)"
      by simp
    from getData_loop_keeps_discard [OF inv this]
    show k: "discardNoSupportErrors s'" and k': "\<not> isErrNoSupport (lastErr s')" by simp_all
    fix m
    from k' show "after_loop rf s' \<noteq> Inl (ErrNoSupport m)"
      by (rule after_loop_not_ErrNoSupport)
  }
  {
    fix eps
    assume a: "only_no_support Done Fetch ri ac rf (confirmedV2 s \<or> c) w1 eps"
    then have "only_no_support Done Fetch ri ac rf (confirmedV2 ?s1) w1 eps"
      by simp
    from getData_loop_only_no_support [OF this] inv
    obtain s' w' evs where "getData_loop Done Fetch ri ac rf ?s1 w1 eps = (Continue s', w', evs)"
      and "lastErr s' = lastErr ?s1" by auto
    with b show "\<exists>s' w' evs.
                 getData_loop Done Fetch ri ac rf s w (ep # eps) = (Continue s', w', evs) \<and>
                 lastErr s' = inner"
      by simp
  }
  {
    fix s2 :: loop_vars and ep2 w2 m c2 w3
    assume "discardNoSupportErrors s2 \<and> Version ep2 = APIVersion2 \<and>
            Fetch w2 (v2ManifestFetcher ep2 ac ri) rf =
              (Inl (fallbackError (Some (ErrNoSupport m)) c2), w3) \<and> \<not> Done w3"
    then show "\<exists>s3. fst (loop_body Done Fetch ri ac rf ep2 s2 w2) = Continue s3 \<and>
                    lastErr s3 = lastErr s2 \<and> discardNoSupportErrors s3"
      by (simp add: loop_body_fetch_failed on_fetch_error_fallback)
  }
qed

theorem C2_concrete_error_kept_witness:
  "Version endpoint_b = APIVersion2 \<and>
   ex_Fetch_late 0 (v2ManifestFetcher endpoint_b no_auth ''busybox'') ''busybox:latest'' =
     (Inl (fallbackError (Some (errorString ''manifest unknown'')) False), 1) \<and>
   \<not> Background (1::nat) \<and>
   \<not> isErrNoSupport (Some (errorString ''manifest unknown'')) \<and>
   only_no_support Background ex_Fetch_late ''busybox'' no_auth ''busybox:latest''
     (confirmedV2 init_vars \<or> False) 1 [endpoint_a, endpoint_c] \<and>
   loop_body Background ex_Fetch_late ''busybox'' no_auth ''busybox:latest'' endpoint_b init_vars 0 =
     (Continue \<lparr>lastErr = Some (errorString ''manifest unknown''),
                discardNoSupportErrors = True, confirmedV2 = False\<rparr>, 1,
      [Debugf_Trying endpoint_b, Call_newManifestFetcher endpoint_b, Call_Fetch endpoint_b]) \<and>
   (\<exists>s' w' evs.
      getData_loop Background ex_Fetch_late ''busybox'' no_auth ''busybox:latest'' init_vars 0
        [endpoint_b, endpoint_a, endpoint_c] = (Continue s', w', evs) \<and>
      lastErr s' = Some (errorString ''manifest unknown'') \<and>
      discardNoSupportErrors s' \<and>
      after_loop ''busybox:latest'' s' \<noteq> Inl (ErrNoSupport ''no v2 here''))"
proof -
  have v: "Version endpoint_b = APIVersion2" by (simp add: endpoint_b_def)
  have f: "ex_Fetch_late 0 (v2ManifestFetcher endpoint_b no_auth ''busybox'') ''busybox:latest'' =
     (Inl (fallbackError (Some (errorString ''manifest unknown'')) False), 1)"
    by (simp add: ex_Fetch_late_def endpoint_a_def endpoint_b_def)
  have d: "\<not> Background (1::nat)" by (simp add: Background_def)
  have n: "\<not> isErrNoSupport (Some (errorString ''manifest unknown''))" by simp
  have o: "only_no_support Background ex_Fetch_late ''busybox'' no_auth ''busybox:latest''
     (confirmedV2 init_vars \<or> False) 1 [endpoint_a, endpoint_c]"
    by (simp add: ex_Fetch_late_def endpoint_a_def endpoint_c_def Background_def
        APIVersion1_def APIVersion2_def init_vars_def)
  note t = C2_concrete_error_kept [where Fetch = ex_Fetch_late and Done = Background
      and s = init_vars, OF v f d n]
  have s1: "init_vars\<lparr>confirmedV2 := confirmedV2 init_vars \<or> False,
      discardNoSupportErrors := True, lastErr := Some (errorString ''manifest unknown'')\<rparr> =
      \<lparr>lastErr = Some (errorString ''manifest unknown''),
       discardNoSupportErrors = True, confirmedV2 = False\<rparr>"
    by (simp add: init_vars_def)
  have b: "loop_body Background ex_Fetch_late ''busybox'' no_auth ''busybox:latest'' endpoint_b
      init_vars 0 =
     (Continue \<lparr>lastErr = Some (errorString ''manifest unknown''),
                discardNoSupportErrors = True, confirmedV2 = False\<rparr>, 1,
      [Debugf_Trying endpoint_b, Call_newManifestFetcher endpoint_b, Call_Fetch endpoint_b])"
    using conjunct1 [OF t] unfolding s1 .
  from t o obtain s' w' evs where l: "getData_loop Background ex_Fetch_late ''busybox'' no_auth
      ''busybox:latest'' init_vars 0 (endpoint_b # [endpoint_a, endpoint_c]) = (Continue s', w', evs)"
    and e: "lastErr s' = Some (errorString ''manifest unknown'')"
    by blast
  from t l have k: "discardNoSupportErrors s'"
    and a: "after_loop ''busybox:latest'' s' \<noteq> Inl (ErrNoSupport ''no v2 here'')"
    by blast+
  from l e k a have "\<exists>s' w' evs.
      getData_loop Background ex_Fetch_late ''busybox'' no_auth ''busybox:latest'' init_vars 0
        [endpoint_b, endpoint_a, endpoint_c] = (Continue s', w', evs) \<and>
      lastErr s' = Some (errorString ''manifest unknown'') \<and>
      discardNoSupportErrors s' \<and>
      after_loop ''busybox:latest'' s' \<noteq> Inl (ErrNoSupport ''no v2 here'')"
    by blast
  with v f d n o b show ?thesis by blast
qed

text \<open>
  The claim C2 as it was stated fails: a version-2 endpoint records a concrete error
  without confirming the protocol, the version-1 endpoint after it fails in
  \<^verbatim>\<open>newManifestFetcher\<close>, and \<^verbatim>\<open>getData\<close> returns that construction error.
\<close>

theorem C2_later_failure_replaces_error:
  "loop_body Background ex_Fetch_unconfirmed ''busybox'' no_auth ''busybox:latest'' endpoint_b
     init_vars 0 =
     (Continue \<lparr>lastErr = Some (errorString ''manifest unknown''),
                discardNoSupportErrors = True, confirmedV2 = False\<rparr>, 1,
      [Debugf_Trying endpoint_b, Call_newManifestFetcher endpoint_b, Call_Fetch endpoint_b]) \<and>
   getData ex_ParseRepositoryInfo ''scratch'' ex_Lookup_bc ex_Fetch_unconfirmed
     ''busybox:latest'' no_auth 0 =
     (Inl (errorString ''unknown version 1 for registry https://c.example''), 1,
      [Debugf_Trying endpoint_b, Call_newManifestFetcher endpoint_b, Call_Fetch endpoint_b,
       Debugf_Trying endpoint_c, Call_newManifestFetcher endpoint_c]) \<and>
   errorString ''unknown version 1 for registry https://c.example'' \<noteq>
     errorString ''manifest unknown''"
  by (simp add: getData_def after_loop_def ex_ParseRepositoryInfo_def ex_Lookup_bc_def
      validateRepoName_def ex_Fetch_unconfirmed_def endpoint_b_def endpoint_c_def no_auth_def
      loop_body_def newManifestFetcher_def on_fetch_error_def APIVersion1_def APIVersion2_def
      init_vars_def Background_def itoa_def digits.simps)

section \<open>Properties of the directory transport\<close>



text \<open>
  Claim C7. \<^verbatim>\<open>ValidatePolicyConfigurationScope\<close> returns nil exactly for the scopes that
  start with \<^verbatim>\<open>/\<close>, are not \<^verbatim>\<open>/\<close> itself and are equal to their \<^verbatim>\<open>Clean\<close> form; for every
  other scope it returns an error.
\<close>

theorem C7_scope_validation:
  "ValidatePolicyConfigurationScope scope = None \<longleftrightarrow>
     HasPrefix scope ''/'' \<and> scope \<noteq> ''/'' \<and> Clean scope = scope"
  by (simp add: ValidatePolicyConfigurationScope_def Let_def)

text \<open>The scopes of the specification's examples.\<close>

lemma Clean_a_b_slash: "Clean ''/a/b/'' = ''/a/b''"
  by (simp add: Clean_def sep_if_needed_def)

lemma Clean_a_b: "Clean ''/a/b'' = ''/a/b''"
  by (simp add: Clean_def sep_if_needed_def)

theorem C7_scope_validation_witness:
  "ValidatePolicyConfigurationScope ''/'' \<noteq> None \<and>
   ValidatePolicyConfigurationScope ''/a/b/'' =
     Some (errorString ''Invalid scope /a/b/: Uses non-canonical format, perhaps try /a/b'') \<and>
   ValidatePolicyConfigurationScope ''relative/path'' =
     Some (errorString ''Invalid scope relative/path: Must be an absolute path'') \<and>
   ValidatePolicyConfigurationScope ''/a/b'' = None"
proof -
  have 1: "ValidatePolicyConfigurationScope ''/'' \<noteq> None"
    using C7_scope_validation [of "''/''"] by simp
  have 2: "ValidatePolicyConfigurationScope ''/a/b/'' =
     Some (errorString ''Invalid scope /a/b/: Uses non-canonical format, perhaps try /a/b'')"
    by (simp add: ValidatePolicyConfigurationScope_def HasPrefix_def Clean_a_b_slash)
  have 3: "ValidatePolicyConfigurationScope ''relative/path'' =
     Some (errorString ''Invalid scope relative/path: Must be an absolute path'')"
    by (simp add: ValidatePolicyConfigurationScope_def HasPrefix_def)
  have 4: "ValidatePolicyConfigurationScope ''/a/b'' = None"
    using C7_scope_validation [of "''/a/b''"] by (simp add: HasPrefix_def Clean_a_b)
  from 1 2 3 4 show ?thesis by blast
qed

subsection \<open>\<^verbatim>\<open>Clean\<close> and the paths within a directory\<close>

text \<open>
  \<^verbatim>\<open>Clean\<close> reads its input element by element: at a separator the state reached so far
  is all that matters for the rest.
\<close>

lemma takeWhile_sep: "takeWhile (\<lambda>x. x \<noteq> CHR ''/'') (xs @ CHR ''/'' # ys) = takeWhile (\<lambda>x. x \<noteq> CHR ''/'') xs"
  by (induction xs) auto

lemma dropWhile_sep: "dropWhile (\<lambda>x. x \<noteq> CHR ''/'') (xs @ CHR ''/'' # ys) = dropWhile (\<lambda>x. x \<noteq> CHR ''/'') xs @ CHR ''/'' # ys"
  by (induction xs) auto

lemma clean_loop_sep_split:
  "clean_loop rooted st (xs @ CHR ''/'' # ys) =
   clean_loop rooted (clean_loop rooted st xs) (CHR ''/'' # ys)"
proof (induction rooted st xs rule: clean_loop.induct)
  case (1 rooted buf dotdot)
  then show ?case by simp
next
  case (2 rooted buf dotdot c rest)
  show ?case
  proof (cases "c = CHR ''/''")
    case True
    with 2 show ?thesis by simp
  next
    case nsl: False
    show ?thesis
    proof (cases "c = CHR ''.'' \<and> (rest = [] \<or> hd rest = CHR ''/'')")
      case True
      with 2 nsl show ?thesis by (cases rest) auto
    next
      case ndot: False
      show ?thesis
      proof (cases "c = CHR ''.'' \<and> rest \<noteq> [] \<and> hd rest = CHR ''.'' \<and>
              (tl rest = [] \<or> hd (tl rest) = CHR ''/'')")
        case True
        then obtain r2 where r: "rest = CHR ''.'' # r2" and r2: "r2 = [] \<or> hd r2 = CHR ''/''"
          by (cases rest) auto
        have c3: "(r2 @ CHR ''/'' # ys = [] \<or> hd (r2 @ CHR ''/'' # ys) = CHR ''/'')"
          using r2 by (cases r2) auto
        from 2(3-5) nsl ndot True r show ?thesis
          using c3 by simp
      next
        case False
        with 2(6) nsl ndot show ?thesis
          by (cases rest) (auto simp: takeWhile_sep dropWhile_sep)
      qed
    qed
  qed
qed

lemma no_sep_takeWhile: "CHR ''/'' \<notin> set xs \<Longrightarrow> takeWhile (\<lambda>x. x \<noteq> CHR ''/'') xs = xs"
  by (induction xs) auto

lemma no_sep_dropWhile: "CHR ''/'' \<notin> set xs \<Longrightarrow> dropWhile (\<lambda>x. x \<noteq> CHR ''/'') xs = []"
  by (induction xs) auto

lemma clean_loop_element:
  assumes "plain_element name"
  shows "clean_loop rooted (buf, dd) name = (sep_if_needed rooted buf @ name, dd)"
proof -
  from assms obtain c rest where n: "name = c # rest" and c: "c \<noteq> CHR ''/''"
    and r: "CHR ''/'' \<notin> set rest"
    by (cases name) (auto simp: plain_element_def)
  have tw: "takeWhile (\<lambda>x. x \<noteq> CHR ''/'') (c # rest) = c # rest"
    using c r by (simp add: no_sep_takeWhile)
  have dw: "dropWhile (\<lambda>x. x \<noteq> CHR ''/'') (c # rest) = []"
    using c r by (simp add: no_sep_dropWhile)
  have h: "rest \<noteq> [] \<Longrightarrow> hd rest \<noteq> CHR ''/''"
    using r by (cases rest) auto
  have h2: "rest \<noteq> [] \<Longrightarrow> tl rest \<noteq> [] \<Longrightarrow> hd (tl rest) \<noteq> CHR ''/''"
    using r by (cases rest; cases "tl rest") auto
  have nd: "\<not> (c = CHR ''.'' \<and> (rest = [] \<or> hd rest = CHR ''/''))"
    using assms n h by (auto simp: plain_element_def)
  have ndd: "\<not> (c = CHR ''.'' \<and> rest \<noteq> [] \<and> hd rest = CHR ''.'' \<and>
              (tl rest = [] \<or> hd (tl rest) = CHR ''/''))"
  proof
    assume a: "c = CHR ''.'' \<and> rest \<noteq> [] \<and> hd rest = CHR ''.'' \<and>
              (tl rest = [] \<or> hd (tl rest) = CHR ''/'')"
    with h2 have "tl rest = []" by blast
    with a have "rest = ''.''" by (cases rest) auto
    with a n assms show False by (simp add: plain_element_def)
  qed
  have "clean_loop rooted (buf, dd) (c # rest) =
    clean_loop rooted
             (sep_if_needed rooted buf @ takeWhile (\<lambda>x. x \<noteq> CHR ''/'') (c # rest), dd)
             (dropWhile (\<lambda>x. x \<noteq> CHR ''/'') (c # rest))"
    using c nd ndd by (subst clean_loop.simps(2)) (simp only: if_False)
  then show ?thesis unfolding tw dw n by simp
qed

lemma backtrack_bounds:
  "dd \<le> n \<Longrightarrow> dd \<le> backtrack dd buf n \<and> backtrack dd buf n \<le> n"
  by (induction n) auto

lemma backtrack_stop:
  "dd \<le> n \<Longrightarrow> backtrack dd buf n = 0 \<or> backtrack dd buf n = dd \<or>
     buf ! backtrack dd buf n = CHR ''/''"
  by (induction n) auto

text \<open>
  A property of the buffer and of \<open>dotdot\<close> that every step of the loop keeps holds at
  its end.
\<close>

lemma clean_loop_invariant:
  assumes init: "P buf dd"
    and bt: "\<And>buf dd. P buf dd \<Longrightarrow> dd < length buf \<Longrightarrow>
               P (take (backtrack dd buf (length buf - 1)) buf) dd"
    and up: "\<And>buf dd. P buf dd \<Longrightarrow> \<not> rooted \<Longrightarrow> \<not> dd < length buf \<Longrightarrow>
               P ((if length buf > 0 then buf @ ''/'' else buf) @ ''..'')
                 (length ((if length buf > 0 then buf @ ''/'' else buf) @ ''..''))"
    and el: "\<And>buf dd e. P buf dd \<Longrightarrow> e \<noteq> [] \<Longrightarrow> CHR ''/'' \<notin> set e \<Longrightarrow> e \<noteq> ''.'' \<Longrightarrow>
               P (sep_if_needed rooted buf @ e) dd"
  shows "P (fst (clean_loop rooted (buf, dd) xs)) (snd (clean_loop rooted (buf, dd) xs))"
  using init
proof (induction "length xs" arbitrary: xs buf dd rule: less_induct)
  case less
  note P = \<open>P buf dd\<close>
  show ?case
  proof (cases xs)
    case Nil
    with P show ?thesis by simp
  next
    case (Cons c rest)
    have lr: "length rest < length xs" and lt: "length (tl rest) < length xs"
      using Cons by simp_all
    show ?thesis
    proof (cases "c = CHR ''/''")
      case True
      with less.hyps [OF lr P] Cons show ?thesis by simp
    next
      case nsl: False
      show ?thesis
      proof (cases "c = CHR ''.'' \<and> (rest = [] \<or> hd rest = CHR ''/'')")
        case True
        with less.hyps [OF lr P] Cons nsl show ?thesis by simp
      next
        case ndot: False
        show ?thesis
        proof (cases "c = CHR ''.'' \<and> rest \<noteq> [] \<and> hd rest = CHR ''.'' \<and>
                (tl rest = [] \<or> hd (tl rest) = CHR ''/'')")
          case two: True
          show ?thesis
          proof (cases "dd < length buf")
            case True
            from less.hyps [OF lt bt [OF P True]] Cons nsl ndot two True
            show ?thesis by simp
          next
            case nb: False
            show ?thesis
            proof (cases rooted)
              case True
              from less.hyps [OF lt P] Cons True nsl ndot two nb
              show ?thesis by simp
            next
              case False
              from less.hyps [OF lt up [OF P False nb]] Cons False nsl ndot two nb
              show ?thesis by simp
            qed
          qed
        next
          case False
          let ?e = "takeWhile (\<lambda>x. x \<noteq> CHR ''/'') (c # rest)"
          let ?r = "dropWhile (\<lambda>x. x \<noteq> CHR ''/'') (c # rest)"
          have e1: "?e \<noteq> []" using nsl by simp
          have e2: "CHR ''/'' \<notin> set ?e"
            using set_takeWhileD [of "CHR ''/''" "\<lambda>x. x \<noteq> CHR ''/''" "c # rest"] by blast
          have e3: "?e \<noteq> ''.''"
            using nsl ndot by (cases rest) auto
          have "length (dropWhile (\<lambda>x. x \<noteq> CHR ''/'') rest) \<le> length rest"
            by (rule length_dropWhile_le)
          with nsl Cons have ld: "length ?r < length xs" by simp
          have "clean_loop rooted (buf, dd) xs =
              clean_loop rooted (sep_if_needed rooted buf @ ?e, dd) ?r"
            unfolding Cons using nsl ndot False
            by (subst clean_loop.simps(2)) (simp only: if_False)
          with less.hyps [OF ld el [OF P e1 e2 e3]] show ?thesis by simp
        qed
      qed
    qed
  qed
qed

lemma clean_loop_rooted:
  assumes "buf \<noteq> [] \<and> hd buf = CHR ''/'' \<and> 1 \<le> dd"
  shows "fst (clean_loop True (buf, dd) xs) \<noteq> [] \<and>
         hd (fst (clean_loop True (buf, dd) xs)) = CHR ''/''"
proof -
  let ?P = "\<lambda>(buf::string) (dd::nat). buf \<noteq> [] \<and> hd buf = CHR ''/'' \<and> 1 \<le> dd"
  have "?P (fst (clean_loop True (buf, dd) xs)) (snd (clean_loop True (buf, dd) xs))"
  proof (rule clean_loop_invariant [where P = ?P])
    show "?P buf dd" by (rule assms)
  next
    fix buf :: string and dd :: nat
    assume p: "?P buf dd" and l: "dd < length buf"
    from l have "dd \<le> length buf - 1" by simp
    from backtrack_bounds [OF this, of buf] p
    have "1 \<le> backtrack dd buf (length buf - 1)" by simp
    with p show "?P (take (backtrack dd buf (length buf - 1)) buf) dd"
      by (cases "backtrack dd buf (length buf - 1)") (auto simp: hd_take)
  next
    fix buf :: string and dd :: nat
    assume "\<not> True"
    then show "?P ((if length buf > 0 then buf @ ''/'' else buf) @ ''..'')
                 (length ((if length buf > 0 then buf @ ''/'' else buf) @ ''..''))"
      by simp
  next
    fix buf :: string and dd :: nat and e :: string
    assume "?P buf dd"
    then show "?P (sep_if_needed True buf @ e) dd"
      by (auto simp: sep_if_needed_def)
  qed
  then show ?thesis by simp
qed

lemma clean_loop_unrooted:
  "(fst (clean_loop False ([], 0) xs) \<noteq> [] \<longrightarrow> hd (fst (clean_loop False ([], 0) xs)) \<noteq> CHR ''/'') \<and>
   fst (clean_loop False ([], 0) xs) \<noteq> ''.''"
proof -
  let ?P = "\<lambda>(buf::string) (dd::nat). (buf \<noteq> [] \<longrightarrow> hd buf \<noteq> CHR ''/'') \<and> buf \<noteq> ''.'' \<and>
      take 2 buf \<noteq> ''./'' \<and> (dd = 0 \<or> 2 \<le> dd)"
  have "?P (fst (clean_loop False ([], 0) xs)) (snd (clean_loop False ([], 0) xs))"
  proof (rule clean_loop_invariant [where P = ?P])
    show "?P [] 0" by simp
  next
    fix buf :: string and dd :: nat
    assume p: "?P buf dd" and l: "dd < length buf"
    let ?w = "backtrack dd buf (length buf - 1)"
    from l have le: "dd \<le> length buf - 1" by simp
    from backtrack_bounds [OF le, of buf] have w: "dd \<le> ?w" "?w \<le> length buf - 1" by simp_all
    from w l have wl: "?w < length buf" by simp
    have a: "take ?w buf \<noteq> [] \<longrightarrow> hd (take ?w buf) \<noteq> CHR ''/''"
      using p by (cases ?w) (auto simp: hd_take)
    have b: "take ?w buf \<noteq> ''.''"
    proof
      assume t: "take ?w buf = ''.''"
      then have "length (take ?w buf) = 1" by simp
      with wl have w1: "?w = 1" by simp
      from backtrack_stop [OF le, of buf] w1 p have "buf ! 1 = CHR ''/''" by auto
      moreover from t w1 have "buf ! 0 = CHR ''.''"
        by (metis One_nat_def nth_Cons_0 nth_take zero_less_one)
      moreover from wl w1 have "2 \<le> length buf" by simp
      ultimately have "take 2 buf = ''./''"
        by (cases buf; cases "tl buf") auto
      with p show False by simp
    qed
    have c: "take 2 (take ?w buf) \<noteq> ''./''"
    proof
      assume t: "take 2 (take ?w buf) = ''./''"
      then have "length (take 2 (take ?w buf)) = 2" by simp
      then have "2 \<le> ?w" by simp
      then have "take 2 (take ?w buf) = take 2 buf" by (simp add: min_def)
      with t p show False by simp
    qed
    from a b c p show "?P (take ?w buf) dd" by simp
  next
    fix buf :: string and dd :: nat
    assume p: "?P buf dd"
    show "?P ((if length buf > 0 then buf @ ''/'' else buf) @ ''..'')
                 (length ((if length buf > 0 then buf @ ''/'' else buf) @ ''..''))"
    proof (cases buf)
      case Nil
      then show ?thesis by simp
    next
      case (Cons x xs')
      with p show ?thesis by (cases xs') auto
    qed
  next
    fix buf :: string and dd :: nat and e :: string
    assume p: "?P buf dd" and e: "e \<noteq> []" "CHR ''/'' \<notin> set e" "e \<noteq> ''.''"
    show "?P (sep_if_needed False buf @ e) dd"
    proof (cases buf)
      case Nil
      with p e show ?thesis
        by (cases e; cases "tl e") (auto simp: sep_if_needed_def)
    next
      case (Cons x xs')
      with p show ?thesis by (cases xs') (auto simp: sep_if_needed_def)
    qed
  qed
  then show ?thesis by simp
qed

lemma clean_loop_skip_sep:
  "clean_loop rooted (buf, dd) (CHR ''/'' # xs) = clean_loop rooted (buf, dd) xs"
  by simp

lemma Clean_append_element:
  assumes n: "plain_element name" and p: "p \<noteq> []"
  shows "Clean (p @ CHR ''/'' # name) =
     (if Clean p = ''.'' then name
      else if Clean p = ''/'' then CHR ''/'' # name
      else Clean p @ CHR ''/'' # name)"
proof (cases "hd p = CHR ''/''")
  case True
  with p obtain p' where pp: "p = CHR ''/'' # p'" by (cases p) auto
  obtain b d where st: "clean_loop True (''/'', 1) p' = (b, d)"
    by (cases "clean_loop True (''/'', 1) p'") auto
  from clean_loop_rooted [of "''/''" 1 p'] st have b: "b \<noteq> []" "hd b = CHR ''/''" by simp_all
  have cp: "Clean p = b" using pp st b by (simp add: Clean_def)
  have "clean_loop True (''/'', 1) (p' @ CHR ''/'' # name) = (sep_if_needed True b @ name, d)"
    by (simp only: clean_loop_sep_split st clean_loop_skip_sep clean_loop_element [OF n])
  moreover from n have "name \<noteq> []" by (simp add: plain_element_def)
  ultimately have "Clean (p @ CHR ''/'' # name) = sep_if_needed True b @ name"
    using pp by (simp add: Clean_def)
  moreover have "sep_if_needed True b @ name =
     (if b = ''.'' then name else if b = ''/'' then CHR ''/'' # name else b @ CHR ''/'' # name)"
    using b by (cases b; cases "tl b") (auto simp: sep_if_needed_def)
  ultimately show ?thesis using cp by simp
next
  case False
  obtain b d where st: "clean_loop False ([], 0) p = (b, d)"
    by (cases "clean_loop False ([], 0) p") auto
  from clean_loop_unrooted [of p] st have b: "b \<noteq> [] \<longrightarrow> hd b \<noteq> CHR ''/''" "b \<noteq> ''.''"
    by simp_all
  have cp: "Clean p = (if b = [] then ''.'' else b)" using p False st by (simp add: Clean_def)
  have "clean_loop False ([], 0) (p @ CHR ''/'' # name) = (sep_if_needed False b @ name, d)"
    by (simp only: clean_loop_sep_split st clean_loop_skip_sep clean_loop_element [OF n])
  moreover from n have "name \<noteq> []" by (simp add: plain_element_def)
  moreover from p False have "hd (p @ CHR ''/'' # name) \<noteq> CHR ''/''" by simp
  ultimately have "Clean (p @ CHR ''/'' # name) = sep_if_needed False b @ name"
    by (simp add: Clean_def)
  moreover have "sep_if_needed False b @ name =
     (if b = [] then name else if b = ''/'' then CHR ''/'' # name else b @ CHR ''/'' # name)"
    using b by (auto simp: sep_if_needed_def)
  ultimately show ?thesis using cp b by auto
qed

lemma Clean_element:
  assumes "plain_element name"
  shows "Clean name = name"
proof -
  from assms have n: "name \<noteq> []" by (simp add: plain_element_def)
  from assms have h: "hd name \<noteq> CHR ''/''"
    by (cases name) (auto simp: plain_element_def)
  from clean_loop_element [OF assms, of False "[]" 0]
  have "clean_loop False ([], 0) name = (name, 0)" by (simp add: sep_if_needed_def)
  with n h show ?thesis by (simp add: Clean_def)
qed

lemma Join_element:
  assumes "plain_element name"
  shows "Join [p, name] =
     (if Clean p = ''.'' then name
      else if Clean p = ''/'' then CHR ''/'' # name
      else Clean p @ CHR ''/'' # name)"
proof (cases "p = []")
  case True
  with assms show ?thesis by (simp add: Clean_element) (simp add: Clean_def plain_element_def)
next
  case False
  with Clean_append_element [OF assms False] show ?thesis by simp
qed

lemma digits_chars: "set (digits n) \<subseteq> set ''0123456789''"
proof (induction n rule: digits.induct)
  case (1 n)
  have d: "''0123456789'' ! k \<in> set ''0123456789''" if "k < 10" for k
    using that nth_mem [of k "''0123456789''"] by simp
  show ?case
  proof (cases "n < 10")
    case True
    with d [of n] show ?thesis by (subst digits.simps) simp
  next
    case False
    with 1 d [of "n mod 10"] show ?thesis by (subst digits.simps) simp
  qed
qed

lemma digits_nonempty: "digits n \<noteq> []"
  by (subst digits.simps) simp

lemma itoa_no_sep: "CHR ''/'' \<notin> set (itoa i)"
  using digits_chars [of "nat i"] digits_chars [of "nat (- i)"]
  by (auto simp: itoa_def)

lemma plain_manifest: "plain_element ''manifest.json''"
  by (simp add: plain_element_def)

lemma plain_layer:
  assumes "CHR ''/'' \<notin> set digest"
  shows "plain_element (TrimPrefix digest ''sha256:'' @ ''.tar'')"
proof -
  have "set (TrimPrefix digest ''sha256:'') \<subseteq> set digest"
    by (auto simp: TrimPrefix_def dest: in_set_dropD)
  with assms have "CHR ''/'' \<notin> set (TrimPrefix digest ''sha256:'')" by blast
  moreover have "x @ ''.tar'' \<noteq> ''.''" for x :: string
  proof
    assume "x @ ''.tar'' = ''.''"
    then have "length (x @ ''.tar'') = length ''.''" by (rule arg_cong)
    then show False by simp
  qed
  moreover have "x @ ''.tar'' \<noteq> ''..''" for x :: string
  proof
    assume "x @ ''.tar'' = ''..''"
    then have "length (x @ ''.tar'') = length ''..''" by (rule arg_cong)
    then show False by simp
  qed
  ultimately show ?thesis by (simp add: plain_element_def)
qed

lemma plain_signature: "plain_element (''signature-'' @ itoa k)"
  using itoa_no_sep [of k] by (simp add: plain_element_def)

lemma sint_succ:
  fixes index :: "64 word"
  assumes "sint index \<noteq> 9223372036854775807"
  shows "sint (index + 1) = sint index + 1"
proof -
  have "sint index < 2 ^ 63" using sint_lt [of index] by simp
  with assms have u: "sint index + 1 < 2 ^ 63" by simp
  have l: "- (2 ^ 63) \<le> sint index + 1" using sint_ge [of index] by simp
  have "sint (index + 1) = signed_take_bit 63 (sint index + 1)"
    by (simp add: sint_word_ariths)
  also have "\<dots> = sint index + 1"
    using l u by (simp add: signed_take_bit_int_eq_self)
  finally show ?thesis .
qed

text \<open>
  Claim C8, as amended. \<^verbatim>\<open>manifestPath\<close> is the file \<^verbatim>\<open>manifest.json\<close> under the cleaned
  path of the reference. \<^verbatim>\<open>layerPath\<close>, for a digest without a separator, is the file named
  by the digest with a leading \<^verbatim>\<open>sha256:\<close> removed (no other prefix is removed) and
  \<^verbatim>\<open>.tar\<close> appended. \<^verbatim>\<open>signaturePath\<close>, for an index other than the largest \<^verbatim>\<open>int\<close>, is the
  file \<^verbatim>\<open>signature-\<close> followed by the index plus one in decimal. For a path that is in
  \<^verbatim>\<open>Clean\<close> form and is neither \<^verbatim>\<open>.\<close> nor \<^verbatim>\<open>/\<close>, the file under it is the path, a
  separator and the file name.
\<close>

theorem C8_paths_under_directory:
  "manifestPath r = under_dir (path r) ''manifest.json'' \<and>
   (CHR ''/'' \<notin> set digest \<longrightarrow>
      layerPath r digest = under_dir (path r) (TrimPrefix digest ''sha256:'' @ ''.tar'')) \<and>
   (sint index \<noteq> 9223372036854775807 \<longrightarrow>
      signaturePath r index = under_dir (path r) (''signature-'' @ itoa (sint index + 1))) \<and>
   (Clean (path r) = path r \<and> path r \<noteq> ''.'' \<and> path r \<noteq> ''/'' \<longrightarrow>
      under_dir (path r) name = path r @ ''/'' @ name)"
proof (intro conjI impI)
  show "manifestPath r = under_dir (path r) ''manifest.json''"
    unfolding manifestPath_def under_dir_def by (rule Join_element [OF plain_manifest])
  show "layerPath r digest = under_dir (path r) (TrimPrefix digest ''sha256:'' @ ''.tar'')"
    if "CHR ''/'' \<notin> set digest"
    unfolding layerPath_def under_dir_def by (rule Join_element [OF plain_layer [OF that]])
  show "signaturePath r index = under_dir (path r) (''signature-'' @ itoa (sint index + 1))"
    if "sint index \<noteq> 9223372036854775807"
    unfolding signaturePath_def under_dir_def sint_succ [OF that]
    by (rule Join_element [OF plain_signature])
  show "under_dir (path r) name = path r @ ''/'' @ name"
    if "Clean (path r) = path r \<and> path r \<noteq> ''.'' \<and> path r \<noteq> ''/''"
    using that by (simp add: under_dir_def)
qed

lemma Clean_img: "Clean ''/img'' = ''/img''"
  by (simp add: Clean_def sep_if_needed_def)

theorem C8_paths_under_directory_witness:
  "manifestPath ex_dir = ''/img/manifest.json'' \<and>
   layerPath ex_dir ''sha256:0123'' = ''/img/0123.tar'' \<and>
   signaturePath ex_dir 0 = ''/img/signature-1'' \<and>
   signaturePath ex_dir 1 = ''/img/signature-2''"
proof -
  have p: "path ex_dir = ''/img''" by (simp add: ex_dir_def)
  have d: "CHR ''/'' \<notin> set ''sha256:0123''" by simp
  have i: "sint (0 :: 64 word) \<noteq> 9223372036854775807" "sint (1 :: 64 word) \<noteq> 9223372036854775807"
    by simp_all
  have c: "Clean (path ex_dir) = path ex_dir \<and> path ex_dir \<noteq> ''.'' \<and> path ex_dir \<noteq> ''/''"
    by (simp add: p Clean_img)
  have t: "TrimPrefix ''sha256:0123'' ''sha256:'' @ ''.tar'' = ''0123.tar''"
    by (simp add: TrimPrefix_def HasPrefix_def)
  have s: "''signature-'' @ itoa (sint (0 :: 64 word) + 1) = ''signature-1''"
    "''signature-'' @ itoa (sint (1 :: 64 word) + 1) = ''signature-2''"
    by (simp_all add: itoa_def digits.simps)
  from C8_paths_under_directory [of ex_dir "''sha256:0123''" 0 "''manifest.json''"] c p
  have 1: "manifestPath ex_dir = ''/img/manifest.json''" by simp
  from C8_paths_under_directory [of ex_dir "''sha256:0123''" 0 "''0123.tar''"] d c p t
  have 2: "layerPath ex_dir ''sha256:0123'' = ''/img/0123.tar''" by simp
  from C8_paths_under_directory [of ex_dir "''sha256:0123''" 0 "''signature-1''"] i c p s
  have 3: "signaturePath ex_dir 0 = ''/img/signature-1''" by simp
  from C8_paths_under_directory [of ex_dir "''sha256:0123''" 1 "''signature-2''"] i c p s
  have 4: "signaturePath ex_dir 1 = ''/img/signature-2''" by simp
  from 1 2 3 4 show ?thesis by blast
qed

text \<open>
  The claim C8 as it was stated fails: the prefix of a \<^verbatim>\<open>sha512\<close> digest stays in the
  layer's file name, the separator that ends a path is not doubled, and the index after
  the largest \<^verbatim>\<open>int\<close> is negative.
\<close>

theorem C8_prefix_kept_path_cleaned:
  "layerPath ex_dir ''sha512:ab'' = ''/img/sha512:ab.tar'' \<and>
   manifestPath ex_dir_slash = ''img/manifest.json'' \<and>
   signaturePath ex_dir 9223372036854775807 = ''/img/signature--9223372036854775808''"
  by (simp add: layerPath_def manifestPath_def signaturePath_def ex_dir_def ex_dir_slash_def
      Clean_def sep_if_needed_def TrimPrefix_def HasPrefix_def itoa_def digits.simps)

section \<open>Properties of the registry-backed transport\<close>

text \<open>
  Claim C6, as amended. Where the grammar finds both a tag and a digest in the input, the
  transport's parse function returns a reference whose name has the digest and no tag.
  The naming library's parse function returns such a name, and the constructor accepts
  it. Given a structured name that itself carries both a tag and a digest, the
  constructor fails.
\<close>

theorem C6_digest_wins_in_parse:
  "(HasPrefix s ''//'' \<and> grammar (TrimPrefix s ''//'') = Some n \<and> Tag n = Some t \<and> Digest n = Some d \<longrightarrow>
      docker_ParseReference grammar s = Inr \<lparr>ref = n\<lparr>Tag := None\<rparr>\<rparr> \<and>
      Tag (n\<lparr>Tag := None\<rparr>) = None \<and> Digest (n\<lparr>Tag := None\<rparr>) = Some d) \<and>
   (grammar s' = Some n \<and> Tag n = Some t \<and> Digest n = Some d \<longrightarrow>
      ParseNamed grammar s' = Inr (n\<lparr>Tag := None\<rparr>) \<and>
      docker_NewReference (n\<lparr>Tag := None\<rparr>) = Inr \<lparr>ref = n\<lparr>Tag := None\<rparr>\<rparr>) \<and>
   (Tag n = Some t \<and> Digest n = Some d \<longrightarrow> docker_NewReference n = Inl UnsupportedCombination)"
  by (simp add: docker_ParseReference_def ParseNamed_def WithDefaultTag_def IsNameOnly_def
      docker_NewReference_def)

theorem C6_digest_wins_in_parse_witness:
  "docker_ParseReference ex_grammar ''//busybox:latest@sha256:0123'' =
     Inr \<lparr>ref = \<lparr>Name = ''busybox'', Tag = None, Digest = Some ''sha256:0123''\<rparr>\<rparr> \<and>
   ParseNamed ex_grammar ''busybox:latest@sha256:0123'' =
     Inr \<lparr>Name = ''busybox'', Tag = None, Digest = Some ''sha256:0123''\<rparr> \<and>
   docker_NewReference \<lparr>Name = ''busybox'', Tag = None, Digest = Some ''sha256:0123''\<rparr> =
     Inr \<lparr>ref = \<lparr>Name = ''busybox'', Tag = None, Digest = Some ''sha256:0123''\<rparr>\<rparr> \<and>
   docker_NewReference \<lparr>Name = ''busybox'', Tag = Some ''latest'', Digest = Some ''sha256:0123''\<rparr> =
     Inl UnsupportedCombination"
proof -
  have g: "HasPrefix ''//busybox:latest@sha256:0123'' ''//''"
    "ex_grammar (TrimPrefix ''//busybox:latest@sha256:0123'' ''//'') =
      Some \<lparr>Name = ''busybox'', Tag = Some ''latest'', Digest = Some ''sha256:0123''\<rparr>"
    "ex_grammar ''busybox:latest@sha256:0123'' =
      Some \<lparr>Name = ''busybox'', Tag = Some ''latest'', Digest = Some ''sha256:0123''\<rparr>"
    by (simp_all add: HasPrefix_def TrimPrefix_def ex_grammar_def)
  from C6_digest_wins_in_parse [of "''//busybox:latest@sha256:0123''" ex_grammar
      "\<lparr>Name = ''busybox'', Tag = Some ''latest'', Digest = Some ''sha256:0123''\<rparr>"
      "''latest''" "''sha256:0123''" "''busybox:latest@sha256:0123''"] g
  show ?thesis by simp
qed

text \<open>
  The claim C6 as it was stated fails for the constructor: on the structured name of the
  test, with a tag and a digest, it returns an error and no reference.
\<close>

theorem C6_constructor_rejects_both:
  "docker_NewReference \<lparr>Name = ''busybox'', Tag = Some ''notLatest'', Digest = Some ''sha256:0123''\<rparr> =
     Inl UnsupportedCombination"
  by (simp add: docker_NewReference_def IsNameOnly_def)

end
